theory Spec2Isabelle
  imports Complex_Main "HOL-Library.Multiset"
begin

section \<open>Data model\<close>

text \<open>
  JavaScript numbers are modelled as mathematical reals (no rounding, no overflow).
  Only the bounds of a layer are polymorphic in the number type, so that the boundary
  filter of the orchestrator can also be read over numbers that include the
  non-finite values \<open>NaN\<close> and \<open>Infinity\<close>.

  Field names follow the source; \<open>id\<close> and \<open>top\<close> clash with constants of HOL and
  carry a suffix (\<open>id_l\<close>, \<open>top_b\<close>).
\<close>

record 'n bounds =
  top_b :: 'n
  left :: 'n
  right :: 'n
  bottom :: 'n
  width :: 'n
  height :: 'n

datatype kind = Text | Image | Shape | Group

datatype widget =
  Container | Heading | TextEditor | Button | ImageW | ImageBox | IconBox | IconList

datatype direction = Row | Column

text \<open>
  The part of a text style that the inference reads: the text, the font size and the
  font weight. \<open>textData\<close> is the raw text record of the decoder, from which
  \<open>TextStyleExtractor.extract\<close> computes a \<open>textInfo\<close>.
\<close>

record textInfo =
  "text" :: string
  fontSize :: real
  fontWeight :: string

record textData =
  td_text :: string
  style_fontSize :: "real option"
  style_fauxBold :: bool
  style_fontName :: "string option"
  transform :: "real list"

datatype compositeData =
  ImageBoxData (title: string) (description: string) (imageUrl: string)
| IconBoxData (title: string) (description: string) (iconUrl: string)
| ListData (listItems: "string list")

record layout =
  l_direction :: direction
  l_wrap :: bool
  l_gap :: "real option"
  justifyContent :: string
  alignItems :: string

text \<open>
  A layer object. JavaScript objects are open records: the classifiers and the
  orchestrator copy a layer with the spread operator and add fields, so one record
  holds the fields of an input layer and the fields that the pipeline adds
  (absent fields are \<open>None\<close> or \<open>False\<close>). A node is a layer object with its children.
\<close>

record 'n attrs =
  id_l :: string
  name :: string
  type :: kind
  visible :: bool
  bounds :: "'n bounds"
  textInfo :: "textInfo option"
  textData :: "textData option"
  hasImage :: bool
  widgetType :: "widget option"
  badgeClass :: "string option"
  isComposite :: bool
  isSmartDetected :: bool
  confidence :: "real option"
  compositeData :: "compositeData option"
  sourceLayerCount :: "nat option"
  layout :: "layout option"
  isRepeatingPattern :: bool
  patternCount :: "nat option"

datatype 'n node = Node (attrs: "'n attrs") (children: "'n node list")

type_synonym layer = "real node"

abbreviation lbounds :: "'n node \<Rightarrow> 'n bounds" where
  "lbounds l \<equiv> bounds (attrs l)"

abbreviation lid :: "'n node \<Rightarrow> string" where
  "lid l \<equiv> id_l (attrs l)"

section \<open>LayoutDistanceHelper\<close>

definition verticalDistance :: "real bounds \<Rightarrow> real bounds \<Rightarrow> real" where
  "verticalDistance a b =
     (if bottom a < top_b b then top_b b - bottom a
      else if bottom b < top_b a then top_b a - bottom b
      else 0)"

definition horizontalDistance :: "real bounds \<Rightarrow> real bounds \<Rightarrow> real" where
  "horizontalDistance a b =
     (if right a < left b then left b - right a
      else if right b < left a then left a - right b
      else 0)"

definition smartDistance :: "real bounds \<Rightarrow> real bounds \<Rightarrow> real" where
  "smartDistance a b =
     (let vertical = verticalDistance a b;
          horizontal = horizontalDistance a b
      in if vertical = 0 then horizontal
         else if horizontal = 0 then vertical
         else min vertical horizontal)"

definition rect :: "real \<Rightarrow> real \<Rightarrow> real \<Rightarrow> real \<Rightarrow> real bounds" where
  \<comment> \<open>a well-formed rectangle, width and height derived as the parser derives them\<close>
  "rect t l r b =
     \<lparr>top_b = t, left = l, right = r, bottom = b, width = r - l, height = b - t\<rparr>"

definition leaf :: "string \<Rightarrow> string \<Rightarrow> kind \<Rightarrow> 'n bounds \<Rightarrow> textInfo option \<Rightarrow> 'n node" where
  \<comment> \<open>a visible leaf layer as the parser hands it over: no children, no pipeline fields\<close>
  "leaf i n k b ti =
     Node \<lparr>id_l = i, name = n, type = k, visible = True, bounds = b, textInfo = ti,
           textData = None, hasImage = (k \<noteq> Text \<and> k \<noteq> Group), widgetType = None,
           badgeClass = None, isComposite = False, isSmartDetected = False,
           confidence = None, compositeData = None, sourceLayerCount = None,
           layout = None, isRepeatingPattern = False, patternCount = None\<rparr> []"

definition box :: "string \<Rightarrow> real \<Rightarrow> real \<Rightarrow> real \<Rightarrow> real \<Rightarrow> layer" where
  \<comment> \<open>an image leaf with the given top, left, right and bottom\<close>
  "box i t l r b = leaf i i Image (rect t l r b) None"

section \<open>ContainerLayoutHelper\<close>

definition axisDistance :: "direction \<Rightarrow> real bounds \<Rightarrow> real bounds \<Rightarrow> real" where
  \<comment> \<open>the conditional expression in the loop of \<open>calculateGap\<close>\<close>
  "axisDistance d a b =
     (if d = Row then horizontalDistance a b else verticalDistance a b)"

fun gapsLoop :: "direction \<Rightarrow> layer list \<Rightarrow> real list" where
  \<comment> \<open>the \<open>for\<close> loop of \<open>calculateGap\<close> over \<open>sorted[i]\<close>, \<open>sorted[i + 1]\<close>\<close>
  "gapsLoop d (a # b # rest) =
     (let gap = axisDistance d (lbounds a) (lbounds b)
      in (if gap > 0 then [gap] else []) @ gapsLoop d (b # rest))"
| "gapsLoop d _ = []"

definition calculateGap :: "layer list \<Rightarrow> direction \<Rightarrow> real" where
  "calculateGap cs d =
     (if length cs < 2 then 0
      else
        let sorted =
              sort_key (\<lambda>c. if d = Row then left (lbounds c) else top_b (lbounds c)) cs;
            gaps = sort (gapsLoop d sorted)
        in if gaps \<noteq> [] then gaps ! (length gaps div 2) else 0)"

definition upper_median :: "real list \<Rightarrow> real \<Rightarrow> bool" where
  \<comment> \<open>\<open>m\<close> is the element in the middle of the sorted values, the upper of the two middle
      ones when their number is even\<close>
  "upper_median xs m \<longleftrightarrow>
     m \<in> set xs \<and>
     length (filter (\<lambda>x. x < m) xs) \<le> length xs div 2 \<and>
     length xs div 2 < length (filter (\<lambda>x. x \<le> m) xs)"

section \<open>StructureInferenceEngine\<close>

record composition =
  c_hasImage :: bool
  c_hasSmallImage :: bool
  c_hasHeading :: bool
  c_hasText :: bool
  c_hasButtonShape :: bool
  c_textCount :: nat
  c_imageCount :: nat
  c_texts :: "string list"
  c_headings :: "layer list"
  c_images :: "layer list"

record inference =
  i_widgetType :: widget
  i_confidence :: real
  i_layers :: "layer list"
  i_compositeData :: "compositeData option"

definition HEADING_FONT_SIZE :: real where "HEADING_FONT_SIZE = 24"
definition BUTTON_MAX_WIDTH :: real where "BUTTON_MAX_WIDTH = 300"
definition BUTTON_MAX_HEIGHT :: real where "BUTTON_MAX_HEIGHT = 80"
definition BUTTON_ASPECT_MIN :: real where "BUTTON_ASPECT_MIN = 2"
definition BUTTON_ASPECT_MAX :: real where "BUTTON_ASPECT_MAX = 6"
definition ICON_MAX_SIZE :: real where "ICON_MAX_SIZE = 100"

definition isTextLayer :: "layer \<Rightarrow> bool" where
  \<comment> \<open>\<open>layer.type === 'text' || layer.textInfo\<close>\<close>
  "isTextLayer l \<longleftrightarrow> type (attrs l) = Text \<or> textInfo (attrs l) \<noteq> None"

definition isImageLayer :: "layer \<Rightarrow> bool" where
  \<comment> \<open>\<open>layer.type === 'image' || layer.type === 'shape' || layer.hasImage\<close>\<close>
  "isImageLayer l \<longleftrightarrow>
     type (attrs l) = Image \<or> type (attrs l) = Shape \<or> hasImage (attrs l)"

definition fontSizeOf :: "layer \<Rightarrow> real" where
  \<comment> \<open>\<open>layer.textInfo?.fontSize || 16\<close>: a missing or zero font size is 16\<close>
  "fontSizeOf l =
     (case textInfo (attrs l) of
        None \<Rightarrow> 16
      | Some ti \<Rightarrow> if fontSize ti = 0 then 16 else fontSize ti)"

definition textOf :: "layer \<Rightarrow> string" where
  \<comment> \<open>\<open>layer.textInfo?.text || layer.name\<close>: a missing or empty text is the name\<close>
  "textOf l =
     (case textInfo (attrs l) of
        None \<Rightarrow> name (attrs l)
      | Some ti \<Rightarrow> if text ti = [] then name (attrs l) else text ti)"

definition isButtonShape :: "layer \<Rightarrow> bool" where
  "isButtonShape l =
     (let w = width (lbounds l); h = height (lbounds l)
      in if w = 0 \<or> h = 0 then False
         else
           let ratio = w / h
           in w \<le> BUTTON_MAX_WIDTH \<and> h \<le> BUTTON_MAX_HEIGHT \<and>
              ratio \<ge> BUTTON_ASPECT_MIN \<and> ratio \<le> BUTTON_ASPECT_MAX)"

definition classifySingleLayer :: "layer \<Rightarrow> inference" where
  "classifySingleLayer l =
     (if isTextLayer l then
        (if fontSizeOf l \<ge> HEADING_FONT_SIZE
         then \<lparr>i_widgetType = Heading, i_confidence = 9 / 10, i_layers = [l],
               i_compositeData = None\<rparr>
         else \<lparr>i_widgetType = TextEditor, i_confidence = 9 / 10, i_layers = [l],
               i_compositeData = None\<rparr>)
      else if isButtonShape l then
        \<lparr>i_widgetType = Button, i_confidence = 7 / 10, i_layers = [l],
         i_compositeData = None\<rparr>
      else if isImageLayer l then
        \<lparr>i_widgetType = ImageW, i_confidence = 85 / 100, i_layers = [l],
         i_compositeData = None\<rparr>
      else
        \<lparr>i_widgetType = Container, i_confidence = 3 / 10, i_layers = [l],
         i_compositeData = None\<rparr>)"

definition emptyComposition :: composition where
  "emptyComposition =
     \<lparr>c_hasImage = False, c_hasSmallImage = False, c_hasHeading = False,
      c_hasText = False, c_hasButtonShape = False, c_textCount = 0, c_imageCount = 0,
      c_texts = [], c_headings = [], c_images = []\<rparr>"

definition analyzeLayer :: "composition \<Rightarrow> layer \<Rightarrow> composition" where
  \<comment> \<open>the body of the \<open>for\<close> loop of \<open>analyzeComposition\<close>\<close>
  "analyzeLayer c l =
     (if isTextLayer l then
        (let c1 = (if fontSizeOf l \<ge> HEADING_FONT_SIZE
                   then c\<lparr>c_hasHeading := True, c_headings := c_headings c @ [l]\<rparr>
                   else c\<lparr>c_hasText := True, c_texts := c_texts c @ [textOf l]\<rparr>)
         in c1\<lparr>c_textCount := c_textCount c1 + 1\<rparr>)
      else if isImageLayer l then
        (let c1 = c\<lparr>c_imageCount := c_imageCount c + 1, c_images := c_images c @ [l]\<rparr>;
             c2 = (if width (lbounds l) \<le> ICON_MAX_SIZE \<and> height (lbounds l) \<le> ICON_MAX_SIZE
                   then c1\<lparr>c_hasSmallImage := True\<rparr>
                   else c1\<lparr>c_hasImage := True\<rparr>)
         in if isButtonShape l then c2\<lparr>c_hasButtonShape := True\<rparr> else c2)
      else c)"

definition analyzeComposition :: "layer list \<Rightarrow> composition" where
  "analyzeComposition cluster = foldl analyzeLayer emptyComposition cluster"

definition headingTitle :: "composition \<Rightarrow> string" where
  \<comment> \<open>the title of both extractors: the text of the first heading, else its name\<close>
  "headingTitle c =
     (case c_headings c of [] \<Rightarrow> [] | heading # _ \<Rightarrow> textOf heading)"

definition firstText :: "composition \<Rightarrow> string" where
  "firstText c = (case c_texts c of [] \<Rightarrow> [] | t # _ \<Rightarrow> t)"

definition extractImageBoxData :: "layer list \<Rightarrow> composition \<Rightarrow> compositeData" where
  "extractImageBoxData cluster c = ImageBoxData (headingTitle c) (firstText c) []"

definition extractIconBoxData :: "layer list \<Rightarrow> composition \<Rightarrow> compositeData" where
  "extractIconBoxData cluster c = IconBoxData (headingTitle c) (firstText c) []"

definition inferWidgetType :: "layer list \<Rightarrow> inference" where
  "inferWidgetType cluster =
     (if cluster = [] then
        \<lparr>i_widgetType = Container, i_confidence = 0, i_layers = [], i_compositeData = None\<rparr>
      else if length cluster = 1 then classifySingleLayer (hd cluster)
      else
        let c = analyzeComposition cluster
        in if c_hasImage c \<and> c_hasHeading c then
             \<lparr>i_widgetType = ImageBox, i_confidence = 85 / 100, i_layers = cluster,
              i_compositeData = Some (extractImageBoxData cluster c)\<rparr>
           else if c_hasSmallImage c \<and> c_hasHeading c \<and> c_hasText c then
             \<lparr>i_widgetType = IconBox, i_confidence = 8 / 10, i_layers = cluster,
              i_compositeData = Some (extractIconBoxData cluster c)\<rparr>
           else if c_hasButtonShape c \<and> c_textCount c = 1 then
             \<lparr>i_widgetType = Button, i_confidence = 75 / 100, i_layers = cluster,
              i_compositeData = None\<rparr>
           else if c_textCount c \<ge> 3 \<and> \<not> c_hasImage c then
             \<lparr>i_widgetType = IconList, i_confidence = 7 / 10, i_layers = cluster,
              i_compositeData = Some (ListData (c_texts c))\<rparr>
           else
             \<lparr>i_widgetType = Container, i_confidence = 5 / 10, i_layers = cluster,
              i_compositeData = None\<rparr>)"

definition tleaf :: "string \<Rightarrow> string \<Rightarrow> real \<Rightarrow> real bounds \<Rightarrow> layer" where
  \<comment> \<open>a text leaf whose text is its name, with the given font size and normal weight\<close>
  "tleaf i n fs b =
     leaf i n Text b (Some \<lparr>text = n, fontSize = fs, fontWeight = ''normal''\<rparr>)"

section \<open>Names and patterns\<close>

definition toLowerChar :: "char \<Rightarrow> char" where
  "toLowerChar c =
     (case map_of (zip ''ABCDEFGHIJKLMNOPQRSTUVWXYZ'' ''abcdefghijklmnopqrstuvwxyz'') c of
        None \<Rightarrow> c
      | Some d \<Rightarrow> d)"

definition toLowerCase :: "string \<Rightarrow> string" where
  "toLowerCase s = map toLowerChar s"

definition startsWith :: "string \<Rightarrow> string \<Rightarrow> bool" where
  "startsWith s p \<longleftrightarrow> take (length p) s = p"

fun includesStr :: "string \<Rightarrow> string \<Rightarrow> bool" where
  \<comment> \<open>\<open>s.includes(p)\<close>: \<open>p\<close> occurs in \<open>s\<close>\<close>
  "includesStr [] p = (p = [])"
| "includesStr (c # s) p = (startsWith (c # s) p \<or> includesStr s p)"

definition testPrefix :: "string list \<Rightarrow> string \<Rightarrow> bool" where
  \<comment> \<open>\<open>/^(p1|p2|...)[-_]?/i.test(name)\<close>: the pattern is anchored at the start, its
      trailing separator is optional, and letters match in either case, so the test
      holds exactly when the name in lower case starts with one of the alternatives\<close>
  "testPrefix alts n = list_ex (startsWith (toLowerCase n)) alts"

section \<open>TextStyleExtractor\<close>

definition mathRound :: "real \<Rightarrow> real" where
  \<comment> \<open>\<open>Math.round\<close>: to the nearest integer, halves upwards\<close>
  "mathRound x = of_int \<lfloor>x + 1 / 2\<rfloor>"

definition getAverageScale :: "real list \<Rightarrow> real" where
  "getAverageScale t =
     (let scaleX = (if 0 < length t then t ! 0 else 1);
          scaleY = (if 3 < length t then t ! 3 else 1)
      in (scaleX + scaleY) / 2)"

definition getFontWeight :: "textData \<Rightarrow> string" where
  "getFontWeight td =
     (if style_fauxBold td then ''bold''
      else
        let n = (case style_fontName td of None \<Rightarrow> [] | Some f \<Rightarrow> toLowerCase f)
        in if includesStr n ''bold'' then ''bold'' else ''normal'')"

definition extractStyle :: "textData option \<Rightarrow> textInfo" where
  \<comment> \<open>\<open>TextStyleExtractor.extract\<close> (\<open>extract\<close> is a keyword of Isabelle): the three
      fields of the result that the classifiers read; a missing text record gives the
      defaults\<close>
  "extractStyle tdo =
     (case tdo of
        None \<Rightarrow> \<lparr>text = [], fontSize = 16, fontWeight = ''normal''\<rparr>
      | Some td \<Rightarrow>
          let fs = (case style_fontSize td of
                      None \<Rightarrow> 16
                    | Some f \<Rightarrow> if f = 0 then 16 else f);
              scale = getAverageScale (transform td)
          in \<lparr>text = td_text td, fontSize = mathRound (fs * scale),
               fontWeight = getFontWeight td\<rparr>)"

section \<open>ImageBoxContentClassifier\<close>

definition NAME_PATTERNS_heading :: "string list" where
  "NAME_PATTERNS_heading =
     [''heading'', ''title'', ''h1'', ''h2'', ''h3'', ''h4'', ''h5'', ''h6'', ''headline'',
      ''header'', ''name'']"

definition NAME_PATTERNS_description :: "string list" where
  \<comment> \<open>the alternative \<open>sub[-_]?title\<close> is written out as its three strings\<close>
  "NAME_PATTERNS_description =
     [''desc'', ''description'', ''text'', ''paragraph'', ''body'', ''content'', ''subtitle'',
      ''subtitle'', ''sub-title'', ''sub_title'', ''info'']"

definition NAME_PATTERNS_image :: "string list" where
  "NAME_PATTERNS_image =
     [''img'', ''image'', ''photo'', ''picture'', ''pic'', ''icon'', ''logo'', ''thumb'',
      ''thumbnail'']"

record scored =
  s_layer :: layer
  s_score :: int
  s_top :: real

record roles =
  r_image :: "layer option"
  r_heading :: "layer option"
  r_description :: "layer option"

definition scoreLayer :: "layer \<Rightarrow> scored option" where
  \<comment> \<open>\<open>None\<close> is the TypeError of reading the fields of a missing \<open>textInfo\<close>\<close>
  "scoreLayer l =
     (case textInfo (attrs l) of
        None \<Rightarrow> None
      | Some ti \<Rightarrow>
          let n = name (attrs l);
              s0 = 0;
              s1 = (if testPrefix NAME_PATTERNS_heading n then s0 + 50 else s0);
              s2 = (if testPrefix NAME_PATTERNS_description n then s1 - 50 else s1);
              s3 = (if fontSize ti \<ge> 24 then s2 + 30
                    else if fontSize ti \<ge> 20 then s2 + 20
                    else if fontSize ti \<ge> 18 then s2 + 10
                    else if fontSize ti \<le> 14 then s2 - 20
                    else s2);
              s4 = (if fontWeight ti = ''bold'' then s3 + 15 else s3);
              s5 = (if length (text ti) \<le> 50 then s4 + 10
                    else if length (text ti) > 100 then s4 - 15
                    else s4);
              lines = length (filter (\<lambda>c. c = CHR 0x0A) (text ti)) + 1;
              s6 = (if lines = 1 then s5 + 10
                    else if lines > 2 then s5 - 10
                    else s5)
          in Some \<lparr>s_layer = l, s_score = s6, s_top = top_b (lbounds l)\<rparr>)"

definition classifyTextLayers :: "layer list \<Rightarrow> (layer option \<times> layer option) option" where
  \<comment> \<open>the result pair is (heading, description)\<close>
  "classifyTextLayers textLayers =
     (case those (map scoreLayer textLayers) of
        None \<Rightarrow> None
      | Some sc0 \<Rightarrow>
          let sc = sort_key (\<lambda>s. - s_score s) sc0
          in if sc = [] then Some (None, None)
             else if length sc > 1 \<and> s_score (sc ! 0) = s_score (sc ! 1) then
               (let byTop = sort_key s_top sc
                in Some (Some (s_layer (hd byTop)), Some (s_layer (last byTop))))
             else Some (Some (s_layer (hd sc)), Some (s_layer (last sc))))"

definition pickImage :: "layer list \<Rightarrow> layer option" where
  "pickImage imageLayers =
     (if imageLayers = [] then None
      else
        (case find (\<lambda>l. testPrefix NAME_PATTERNS_image (name (attrs l))) imageLayers of
           Some l \<Rightarrow> Some l
         | None \<Rightarrow> Some (hd imageLayers)))"

definition assignSingleText :: "real \<Rightarrow> layer \<Rightarrow> roles \<Rightarrow> roles option" where
  "assignSingleText headingFontSize l res =
     (case textInfo (attrs l) of
        None \<Rightarrow> None
      | Some ti \<Rightarrow>
          if fontSize ti \<ge> headingFontSize \<or>
             testPrefix NAME_PATTERNS_heading (name (attrs l))
          then Some (res\<lparr>r_heading := Some l\<rparr>)
          else Some (res\<lparr>r_description := Some l\<rparr>))"

definition fillTextInfo :: "layer \<Rightarrow> layer" where
  \<comment> \<open>the effect of the loop body of \<open>classify\<close> on one child:
      \<open>child.textInfo ??= TextStyleExtractor.extract(child.textData)\<close> for a text child\<close>
  "fillTextInfo child =
     (if type (attrs child) = Text \<and> textInfo (attrs child) = None
      then Node ((attrs child)\<lparr>textInfo := Some (extractStyle (textData (attrs child)))\<rparr>)
             (children child)
      else child)"

definition classify :: "real \<Rightarrow> layer list \<Rightarrow> roles option \<times> layer list" where
  \<comment> \<open>state passing: the second component is the list of children after the call, the
      objects that the caller still holds. The roles refer to these objects.\<close>
  "classify headingFontSize cs =
     (let cs' = map fillTextInfo cs;
          imageLayers = filter (\<lambda>c. type (attrs c) = Image \<or> hasImage (attrs c)) cs';
          textLayers = filter (\<lambda>c. type (attrs c) = Text) cs';
          res = \<lparr>r_image = pickImage imageLayers, r_heading = None, r_description = None\<rparr>
      in (if length textLayers = 1 then assignSingleText headingFontSize (hd textLayers) res
          else if length textLayers > 1 then
            (case classifyTextLayers textLayers of
               None \<Rightarrow> None
             | Some (h, d) \<Rightarrow> Some (res\<lparr>r_heading := h, r_description := d\<rparr>))
          else Some res,
          cs'))"

section \<open>layerClassifier\<close>

definition COMPOSITE_WIDGETS :: "widget list" where
  "COMPOSITE_WIDGETS = [ImageBox, IconBox, IconList]"

definition PATTERNS_heading :: "string list" where
  "PATTERNS_heading =
     [''heading'', ''title'', ''h1'', ''h2'', ''h3'', ''h4'', ''h5'', ''h6'', ''headline'',
      ''header'']"

definition PATTERNS_button :: "string list" where
  "PATTERNS_button = [''btn'', ''button'', ''cta'', ''action'']"

definition PATTERNS_image :: "string list" where
  "PATTERNS_image =
     [''img'', ''image'', ''photo'', ''picture'', ''pic'', ''banner'', ''hero'']"

definition PATTERNS_text :: "string list" where
  "PATTERNS_text =
     [''text'', ''paragraph'', ''desc'', ''description'', ''body'', ''content'', ''p'']"

definition PATTERNS_iconBox :: "string list" where
  \<comment> \<open>\<open>icon[-_]?box\<close> and \<open>feature[-_]?box\<close> are written out as their three strings each\<close>
  "PATTERNS_iconBox =
     [''iconbox'', ''icon-box'', ''icon_box'', ''featurebox'', ''feature-box'',
      ''feature_box'', ''service'']"

definition PATTERNS_imageBox :: "string list" where
  "PATTERNS_imageBox =
     [''imagebox'', ''image-box'', ''image_box'', ''card'', ''product'', ''item'',
      ''blogpost'', ''blog-post'', ''blog_post'']"

definition PATTERNS_iconList :: "string list" where
  "PATTERNS_iconList =
     [''iconlist'', ''icon-list'', ''icon_list'', ''list'', ''menu'', ''nav'', ''features'',
      ''bullets'']"

definition PATTERNS_container :: "string list" where
  "PATTERNS_container =
     [''container'', ''section'', ''row'', ''wrapper'', ''box'', ''group'', ''block'']"

definition BADGE_CLASSES :: "widget \<Rightarrow> string" where
  "BADGE_CLASSES w =
     (case w of
        Container \<Rightarrow> ''container'' | Heading \<Rightarrow> ''heading'' | TextEditor \<Rightarrow> ''text''
      | Button \<Rightarrow> ''button'' | ImageW \<Rightarrow> ''image'' | ImageBox \<Rightarrow> ''image-box''
      | IconBox \<Rightarrow> ''icon-box'' | IconList \<Rightarrow> ''icon-list'')"

definition isHeadingName :: "string \<Rightarrow> bool" where
  "isHeadingName n =
     list_ex (includesStr n) [''title'', ''heading'', ''header'', ''headline'', ''name'']"

definition isButtonShape_lc :: "layer \<Rightarrow> string \<Rightarrow> bool" where
  \<comment> \<open>\<open>isButtonShape\<close> of the layer classifier (the inference engine has its own)\<close>
  "isButtonShape_lc l n =
     (if list_ex (includesStr n) [''btn'', ''button'', ''cta'', ''click'', ''submit'', ''action'']
      then True
      else
        let w = width (lbounds l); h = height (lbounds l)
        in if w \<noteq> 0 \<and> h \<noteq> 0 then
             (let ratio = w / h in ratio \<ge> 2 \<and> ratio \<le> 6 \<and> h \<le> 80)
           else False)"

definition determineWidgetType :: "layer \<Rightarrow> widget" where
  "determineWidgetType l =
     (let n = toLowerCase (name (attrs l))
      in if testPrefix PATTERNS_button n then Button
         else if testPrefix PATTERNS_heading n then Heading
         else if testPrefix PATTERNS_iconBox n then IconBox
         else if testPrefix PATTERNS_imageBox n then ImageBox
         else if testPrefix PATTERNS_iconList n then IconList
         else if testPrefix PATTERNS_text n then TextEditor
         else if testPrefix PATTERNS_image n then ImageW
         else if testPrefix PATTERNS_container n then Container
         else if type (attrs l) = Group then Container
         else if type (attrs l) = Text then
           (if fontSizeOf l \<ge> 24 \<or> isHeadingName n then Heading else TextEditor)
         else if type (attrs l) = Image \<or> type (attrs l) = Shape then
           (if isButtonShape_lc l n then Button else ImageW)
         else Container)"

definition detectCompositeWidget :: "layer list \<Rightarrow> widget option" where
  "detectCompositeWidget cs =
     (if cs = [] then None
      else
        let types = map (\<lambda>c. widgetType (attrs c)) cs;
            hasImage = (Some ImageW \<in> set types);
            hasHeading = (Some Heading \<in> set types);
            hasText = (Some TextEditor \<in> set types);
            hasComplexWidgets =
              list_ex (\<lambda>t. t \<in> set [Some ImageBox, Some IconBox, Some IconList,
                                      Some Container, Some Button]) types
        in if hasComplexWidgets then None
           else if hasImage \<and> hasHeading then Some ImageBox
           else
             let textCount =
                   length (filter (\<lambda>t. t = Some TextEditor \<or> t = Some Heading) types)
             in if textCount \<ge> 3 \<and> \<not> hasImage then Some IconList
                else if hasHeading \<and> hasText \<and> \<not> hasImage then Some IconBox
                else None)"

fun classifyLayer :: "layer \<Rightarrow> layer" where
  "classifyLayer (Node a cs) =
     (let wt = determineWidgetType (Node a cs);
          classified = a\<lparr>widgetType := Some wt, badgeClass := Some (BADGE_CLASSES wt)\<rparr>
      in if cs \<noteq> [] \<and> wt \<notin> set COMPOSITE_WIDGETS then
           (let cs' = map classifyLayer cs
            in case detectCompositeWidget cs' of
                 Some compositeType \<Rightarrow>
                   if wt = Container
                   then Node (classified\<lparr>widgetType := Some compositeType,
                                badgeClass := Some (BADGE_CLASSES compositeType),
                                isComposite := True\<rparr>) cs'
                   else Node classified cs'
               | None \<Rightarrow> Node classified cs')
         else Node classified cs)"

definition classifyLayers :: "layer list \<Rightarrow> layer list" where
  "classifyLayers layers = map classifyLayer layers"

definition groupNode :: "string \<Rightarrow> string \<Rightarrow> real bounds \<Rightarrow> layer list \<Rightarrow> layer" where
  \<comment> \<open>a visible group with the given children, as the parser hands it over\<close>
  "groupNode i n b cs = Node (attrs (leaf i n Group b None)) cs"

section \<open>SpatialClusteringHelper\<close>

definition DEFAULT_THRESHOLD :: real where "DEFAULT_THRESHOLD = 20"

definition getMinDistance :: "real bounds \<Rightarrow> real bounds \<Rightarrow> real" where
  "getMinDistance boundsA boundsB =
     (let hGap = max 0 (max (left boundsA) (left boundsB) - min (right boundsA) (right boundsB));
          vGap = max 0 (max (top_b boundsA) (top_b boundsB) -
                        min (bottom boundsA) (bottom boundsB))
      in sqrt (hGap * hGap + vGap * vGap))"

definition findNeighbors :: "layer \<Rightarrow> layer list \<Rightarrow> real \<Rightarrow> layer list" where
  "findNeighbors l allLayers threshold =
     filter (\<lambda>other.
               if lid other = lid l then False
               else getMinDistance (lbounds l) (lbounds other) \<le> threshold)
       allLayers"

text \<open>
  The state of \<open>expandCluster\<close> is the visited set (shared with the caller), the cluster
  and the queue. \<open>addNeighbors\<close> is the inner \<open>for\<close> loop over the neighbours of the
  current layer, \<open>bfsLoop\<close> the \<open>while\<close> loop over the queue.
\<close>

fun addNeighbors ::
  "layer list \<Rightarrow> string set \<times> layer list \<times> layer list \<Rightarrow>
   string set \<times> layer list \<times> layer list" where
  "addNeighbors [] (visited, cluster, queue) = (visited, cluster, queue)"
| "addNeighbors (neighbor # ns) (visited, cluster, queue) =
     (if lid neighbor \<notin> visited
      then addNeighbors ns (insert (lid neighbor) visited, cluster @ [neighbor],
                            queue @ [neighbor])
      else addNeighbors ns (visited, cluster, queue))"

lemma length_filter_insert_less:
  assumes "n \<in> set allLayers" "lid n \<notin> visited"
  shows "length (filter (\<lambda>l. lid l \<notin> insert (lid n) visited) allLayers) <
         length (filter (\<lambda>l. lid l \<notin> visited) allLayers)"
proof -
  have "filter (\<lambda>l. lid l \<notin> insert (lid n) visited) allLayers =
        filter (\<lambda>l. lid l \<noteq> lid n) (filter (\<lambda>l. lid l \<notin> visited) allLayers)"
    by (simp add: conj_commute)
  moreover have "n \<in> set (filter (\<lambda>l. lid l \<notin> visited) allLayers)"
    using assms by simp
  ultimately show ?thesis
    by (metis (mono_tags, lifting) length_filter_less)
qed

lemma addNeighbors_measure:
  assumes "set ns \<subseteq> set allLayers" "addNeighbors ns (v, c, q) = (v', c', q')"
  shows "length (filter (\<lambda>l. lid l \<notin> v') allLayers) + length q' \<le>
         length (filter (\<lambda>l. lid l \<notin> v) allLayers) + length q"
  using assms
proof (induction ns arbitrary: v c q)
  case Nil
  then show ?case by simp
next
  case (Cons n ns)
  show ?case
  proof (cases "lid n \<in> v")
    case True
    with Cons show ?thesis by simp
  next
    case False
    have n: "n \<in> set allLayers" using Cons.prems(1) by simp
    have step: "addNeighbors ns (insert (lid n) v, c @ [n], q @ [n]) = (v', c', q')"
      using Cons.prems(2) False by simp
    have "length (filter (\<lambda>l. lid l \<notin> v') allLayers) + length q' \<le>
          length (filter (\<lambda>l. lid l \<notin> insert (lid n) v) allLayers) + length (q @ [n])"
      using Cons.IH [OF _ step] Cons.prems(1) by simp
    also have "\<dots> \<le> length (filter (\<lambda>l. lid l \<notin> v) allLayers) + length q"
      using length_filter_insert_less [OF n False] by simp
    finally show ?thesis .
  qed
qed

function bfsLoop ::
  "layer list \<Rightarrow> real \<Rightarrow> string set \<times> layer list \<times> layer list \<Rightarrow>
   string set \<times> layer list" where
  "bfsLoop allLayers threshold (visited, cluster, queue) =
     (case queue of
        [] \<Rightarrow> (visited, cluster)
      | current # rest \<Rightarrow>
          bfsLoop allLayers threshold
            (addNeighbors (findNeighbors current allLayers threshold)
               (visited, cluster, rest)))"
  by pat_completeness auto
termination
proof (relation "measure (\<lambda>(allLayers, threshold, visited, cluster, queue).
                   length (filter (\<lambda>l. lid l \<notin> visited) allLayers) + length queue)")
  show "wf (measure (\<lambda>(allLayers, threshold, visited, cluster, queue).
                   length (filter (\<lambda>l. lid l \<notin> visited) allLayers) + length queue))"
    by simp
next
  fix allLayers :: "layer list" and threshold :: real and visited :: "string set"
    and cluster queue :: "layer list" and current :: layer and rest :: "layer list"
    and x :: "string set \<times> layer list \<times> layer list"
  assume q: "queue = current # rest"
  obtain v' c' q' where
    r: "addNeighbors (findNeighbors current allLayers threshold) (visited, cluster, rest) =
          (v', c', q')"
    by (cases "addNeighbors (findNeighbors current allLayers threshold)
                 (visited, cluster, rest)") auto
  have "set (findNeighbors current allLayers threshold) \<subseteq> set allLayers"
    by (auto simp: findNeighbors_def)
  from addNeighbors_measure [OF this r]
  show "((allLayers, threshold,
          addNeighbors (findNeighbors current allLayers threshold) (visited, cluster, rest)),
         (allLayers, threshold, visited, cluster, queue))
        \<in> measure (\<lambda>(allLayers, threshold, visited, cluster, queue).
                   length (filter (\<lambda>l. lid l \<notin> visited) allLayers) + length queue)"
    using q r by simp
qed

definition expandCluster ::
  "layer \<Rightarrow> layer list \<Rightarrow> real \<Rightarrow> string set \<Rightarrow> string set \<times> layer list" where
  \<comment> \<open>returns the visited set after the call and the cluster\<close>
  "expandCluster seed allLayers threshold visited =
     bfsLoop allLayers threshold (insert (lid seed) visited, [seed], [seed])"

fun clusterLoop :: "layer list \<Rightarrow> real \<Rightarrow> layer list \<Rightarrow> string set \<Rightarrow> layer list list" where
  \<comment> \<open>the \<open>for\<close> loop of \<open>clusterByProximity\<close> over the layers that are left\<close>
  "clusterLoop allLayers threshold [] visited = []"
| "clusterLoop allLayers threshold (l # rest) visited =
     (if lid l \<in> visited then clusterLoop allLayers threshold rest visited
      else
        case expandCluster l allLayers threshold visited of
          (visited', cluster) \<Rightarrow>
            (if length cluster > 0 then [cluster] else []) @
            clusterLoop allLayers threshold rest visited')"

definition clusterByProximity :: "layer list \<Rightarrow> real \<Rightarrow> layer list list" where
  "clusterByProximity layers threshold =
     (if layers = [] then []
      else if length layers = 1 then [layers]
      else clusterLoop layers threshold layers {})"

definition hop :: "layer list \<Rightarrow> real \<Rightarrow> (layer \<times> layer) set" where
  \<comment> \<open>one hop of a chain: two layers of the input whose gap is at most the threshold\<close>
  "hop layers threshold =
     {(x, y). x \<in> set layers \<and> y \<in> set layers \<and>
              getMinDistance (lbounds x) (lbounds y) \<le> threshold}"

text \<open>
  The invariant of the breadth-first loop, for the proofs: the queue is part of the
  cluster, the visited set is the set of ids visited before the call together with the
  ids of the cluster, every member of the cluster is reached from the seed by a chain of
  hops, and every member that has left the queue has all its neighbours visited.
  \<open>cluster_ok\<close> is what holds of a finished cluster.
\<close>

definition bfs_inv ::
  "layer list \<Rightarrow> real \<Rightarrow> string set \<Rightarrow> layer \<Rightarrow> string set \<Rightarrow> layer list \<Rightarrow> layer list \<Rightarrow> bool" where
  "bfs_inv allLayers t v0 s v c q \<longleftrightarrow>
     set q \<subseteq> set c \<and> set c \<subseteq> set allLayers \<and> v = v0 \<union> lid ` set c \<and>
     distinct (map lid c) \<and> lid ` set c \<inter> v0 = {} \<and> s \<in> set c \<and>
     (\<forall>x \<in> set c. (s, x) \<in> (hop allLayers t)\<^sup>*) \<and>
     (\<forall>x \<in> set c. x \<notin> set q \<longrightarrow> (\<forall>y \<in> set (findNeighbors x allLayers t). lid y \<in> v))"

definition cluster_ok :: "layer list \<Rightarrow> real \<Rightarrow> layer list \<Rightarrow> bool" where
  "cluster_ok allLayers t c \<longleftrightarrow>
     c \<noteq> [] \<and> (\<forall>x \<in> set c. set (findNeighbors x allLayers t) \<subseteq> set c) \<and>
     (\<forall>x \<in> set c. \<forall>y \<in> set c. (x, y) \<in> (hop allLayers t)\<^sup>*)"

section \<open>RawPSDAdapter: flattening and the boundary filter\<close>

text \<open>
  JavaScript numbers with their non-finite values, for the boundary filter: a finite
  number, \<open>Infinity\<close>, \<open>-Infinity\<close> and \<open>NaN\<close>. The comparison follows the language: every
  comparison with \<open>NaN\<close> is false.
\<close>

datatype jsnum = Fin real | PosInf | NegInf | NaN

fun jsLess :: "jsnum \<Rightarrow> jsnum \<Rightarrow> bool" where
  "jsLess (Fin a) (Fin b) = (a < b)"
| "jsLess (Fin a) PosInf = True"
| "jsLess NegInf (Fin b) = True"
| "jsLess NegInf PosInf = True"
| "jsLess _ _ = False"

instantiation jsnum :: "{zero, ord}"
begin

definition zero_jsnum :: jsnum where
  "zero_jsnum = Fin 0"

definition less_jsnum :: "jsnum \<Rightarrow> jsnum \<Rightarrow> bool" where
  "less_jsnum a b = jsLess a b"

definition less_eq_jsnum :: "jsnum \<Rightarrow> jsnum \<Rightarrow> bool" where
  "less_eq_jsnum a b = (jsLess a b \<or> (a = b \<and> a \<noteq> NaN))"

instance ..

end

definition isFinite :: "jsnum \<Rightarrow> bool" where
  "isFinite x = (case x of Fin r \<Rightarrow> True | _ \<Rightarrow> False)"

fun flatten :: "'n node \<Rightarrow> 'n node list" where
  \<comment> \<open>the local function \<open>flatten\<close> of \<open>flattenLayers\<close>, for one layer of the list\<close>
  "flatten (Node a cs) =
     (if cs \<noteq> [] then concat (map flatten cs) else [Node a cs])"

definition flattenLayers :: "'n node list \<Rightarrow> 'n node list" where
  "flattenLayers layers = concat (map flatten layers)"

definition filterValidLayers :: "('n::{zero, ord}) node list \<Rightarrow> 'n node list" where
  \<comment> \<open>\<open>bounds\<close> is a field of every layer of the model, so the test \<open>layer.bounds\<close> for a
      present object is true and is left out\<close>
  "filterValidLayers layers =
     filter (\<lambda>l. visible (attrs l) \<and> width (lbounds l) > 0 \<and> height (lbounds l) > 0)
       layers"

section \<open>Cluster bounds and the size of sub-clusters\<close>

definition calculateClusterBounds :: "layer list \<Rightarrow> real bounds" where
  \<comment> \<open>the loop starts from \<open>Infinity\<close> and \<open>-Infinity\<close>, which the first layer replaces;
      here it starts from the first layer\<close>
  "calculateClusterBounds cluster =
     (case cluster of
        [] \<Rightarrow> \<lparr>top_b = 0, left = 0, right = 0, bottom = 0, width = 0, height = 0\<rparr>
      | l # ls \<Rightarrow>
          let minTop = foldl (\<lambda>m x. min m (top_b (lbounds x))) (top_b (lbounds l)) ls;
              minLeft = foldl (\<lambda>m x. min m (left (lbounds x))) (left (lbounds l)) ls;
              maxRight = foldl (\<lambda>m x. max m (right (lbounds x))) (right (lbounds l)) ls;
              maxBottom = foldl (\<lambda>m x. max m (bottom (lbounds x))) (bottom (lbounds l)) ls
          in \<lparr>top_b = minTop, left = minLeft, right = maxRight, bottom = maxBottom,
               width = maxRight - minLeft, height = maxBottom - minTop\<rparr>)"

definition unvisited :: "layer list \<Rightarrow> string set \<Rightarrow> nat" where
  \<comment> \<open>for the termination of the recursion over sub-clusters: the number of layers whose
      id has not been visited\<close>
  "unvisited allLayers v = length (filter (\<lambda>l. lid l \<notin> v) allLayers)"

lemma addNeighbors_appends:
  "\<exists>new. addNeighbors ns (v, c, q) = (fst (addNeighbors ns (v, c, q)), c @ new, q @ new)"
proof (induction ns arbitrary: v c q)
  case Nil
  show ?case by simp
next
  case (Cons n ns)
  show ?case
  proof (cases "lid n \<in> v")
    case True
    then show ?thesis using Cons.IH [of v c q] by simp
  next
    case False
    from Cons.IH [of "insert (lid n) v" "c @ [n]" "q @ [n]"] obtain new where
      "addNeighbors ns (insert (lid n) v, c @ [n], q @ [n]) =
         (fst (addNeighbors ns (insert (lid n) v, c @ [n], q @ [n])), (c @ [n]) @ new,
          (q @ [n]) @ new)" by blast
    then have "addNeighbors (n # ns) (v, c, q) =
         (fst (addNeighbors (n # ns) (v, c, q)), c @ (n # new), q @ (n # new))"
      using False by simp
    then show ?thesis by blast
  qed
qed

lemma addNeighbors_cluster_measure:
  assumes "set ns \<subseteq> set allLayers" "addNeighbors ns (v, c, q) = (v', c', q')"
  shows "length c' + unvisited allLayers v' \<le> length c + unvisited allLayers v"
proof -
  from addNeighbors_appends [of ns v c q] assms(2) obtain new where
    n: "c' = c @ new" "q' = q @ new" by auto
  from addNeighbors_measure [OF assms] n
  show ?thesis by (simp add: unvisited_def)
qed

lemma bfsLoop_cluster_measure:
  "bfsLoop allLayers t (v, c, q) = (v', c') \<Longrightarrow>
   length c' + unvisited allLayers v' \<le> length c + unvisited allLayers v"
proof (induction allLayers t "(v, c, q)" arbitrary: v c q rule: bfsLoop.induct)
  case (1 allLayers threshold visited cluster queue)
  show ?case
  proof (cases queue)
    case Nil
    then show ?thesis using "1.prems" by simp
  next
    case (Cons cur rest)
    obtain v1 c1 q1 where
      st: "addNeighbors (findNeighbors cur allLayers threshold) (visited, cluster, rest) =
             (v1, c1, q1)"
      by (cases "addNeighbors (findNeighbors cur allLayers threshold) (visited, cluster, rest)")
        auto
    have sub: "set (findNeighbors cur allLayers threshold) \<subseteq> set allLayers"
      by (auto simp: findNeighbors_def)
    have r: "bfsLoop allLayers threshold (v1, c1, q1) = (v', c')"
      using "1.prems" Cons st by simp
    have "length c' + unvisited allLayers v' \<le> length c1 + unvisited allLayers v1"
      by (rule "1.hyps" [OF Cons st r])
    also have "\<dots> \<le> length cluster + unvisited allLayers visited"
      by (rule addNeighbors_cluster_measure [OF sub st])
    finally show ?thesis .
  qed
qed

lemma expandCluster_cluster_measure:
  assumes "s \<in> set allLayers" "lid s \<notin> v" "expandCluster s allLayers t v = (v', c')"
  shows "length c' + unvisited allLayers v' \<le> unvisited allLayers v"
proof -
  have "length c' + unvisited allLayers v' \<le>
        length [s] + unvisited allLayers (insert (lid s) v)"
    using assms(3) unfolding expandCluster_def by (rule bfsLoop_cluster_measure)
  also have "\<dots> \<le> unvisited allLayers v"
    using length_filter_insert_less [OF assms(1,2)] by (simp add: unvisited_def)
  finally show ?thesis .
qed

lemma clusterLoop_lengths:
  "set rest \<subseteq> set allLayers \<Longrightarrow>
   sum_list (map length (clusterLoop allLayers t rest v)) \<le> unvisited allLayers v"
proof (induction rest arbitrary: v)
  case Nil
  then show ?case by simp
next
  case (Cons l rest)
  have la: "l \<in> set allLayers" and ra: "set rest \<subseteq> set allLayers"
    using Cons.prems by auto
  show ?case
  proof (cases "lid l \<in> v")
    case True
    then show ?thesis using Cons.IH [OF ra, of v] by simp
  next
    case False
    obtain v' c' where ex: "expandCluster l allLayers t v = (v', c')"
      by (cases "expandCluster l allLayers t v") auto
    have "sum_list (map length (clusterLoop allLayers t (l # rest) v)) \<le>
          length c' + sum_list (map length (clusterLoop allLayers t rest v'))"
      using False ex by simp
    also have "\<dots> \<le> length c' + unvisited allLayers v'"
      using Cons.IH [OF ra, of v'] by simp
    also have "\<dots> \<le> unvisited allLayers v"
      by (rule expandCluster_cluster_measure [OF la False ex])
    finally show ?thesis .
  qed
qed

lemma clusterLoop_nonempty: "c \<in> set (clusterLoop allLayers t rest v) \<Longrightarrow> c \<noteq> []"
  by (induction rest arbitrary: v) (auto split: if_splits prod.splits)

lemma clusterByProximity_lengths:
  "sum_list (map length (clusterByProximity layers t)) \<le> length layers"
proof -
  have "sum_list (map length (clusterLoop layers t layers {})) \<le> unvisited layers {}"
    by (rule clusterLoop_lengths) simp
  then show ?thesis by (simp add: clusterByProximity_def unvisited_def)
qed

lemma clusterByProximity_nonempty: "c \<in> set (clusterByProximity layers t) \<Longrightarrow> c \<noteq> []"
  by (auto simp: clusterByProximity_def clusterLoop_nonempty split: if_splits)

lemma member_length_less_sum:
  assumes "c \<in> set cs" "1 < length cs" "\<forall>d \<in> set cs. d \<noteq> []"
  shows "length c < sum_list (map length cs)"
proof -
  from assms(1) obtain xs ys where s: "cs = xs @ c # ys" by (meson split_list)
  have "xs \<noteq> [] \<or> ys \<noteq> []" using assms(2) s by (cases xs; cases ys) auto
  then have "0 < sum_list (map length xs) + sum_list (map length ys)"
  proof
    assume "xs \<noteq> []"
    then obtain x xs' where "xs = x # xs'" by (cases xs) auto
    moreover have "x \<noteq> []" using assms(3) s calculation by simp
    ultimately show ?thesis by simp
  next
    assume "ys \<noteq> []"
    then obtain y ys' where "ys = y # ys'" by (cases ys) auto
    moreover have "y \<noteq> []" using assms(3) s calculation by simp
    ultimately show ?thesis by simp
  qed
  then show ?thesis using s by simp
qed

lemma clusterByProximity_smaller:
  assumes "c \<in> set (clusterByProximity layers t)" "1 < length (clusterByProximity layers t)"
  shows "length c < length layers"
proof -
  have "length c < sum_list (map length (clusterByProximity layers t))"
    using assms clusterByProximity_nonempty by (intro member_length_less_sum) auto
  also have "\<dots> \<le> length layers" by (rule clusterByProximity_lengths)
  finally show ?thesis .
qed

section \<open>RawPSDAdapter: building the tree\<close>

definition PROXIMITY_THRESHOLD :: real where "PROXIMITY_THRESHOLD = 50"

definition widgetName :: "widget \<Rightarrow> string" where
  \<comment> \<open>the string of a widget type, as it appears in \<open>`Smart ${inference.widgetType}`\<close>\<close>
  "widgetName w =
     (case w of
        Container \<Rightarrow> ''container'' | Heading \<Rightarrow> ''heading'' | TextEditor \<Rightarrow> ''text-editor''
      | Button \<Rightarrow> ''button'' | ImageW \<Rightarrow> ''image'' | ImageBox \<Rightarrow> ''image-box''
      | IconBox \<Rightarrow> ''icon-box'' | IconList \<Rightarrow> ''icon-list'')"

definition getBadgeClass :: "widget \<Rightarrow> string" where
  "getBadgeClass w =
     (case w of
        Container \<Rightarrow> ''container'' | Heading \<Rightarrow> ''heading'' | TextEditor \<Rightarrow> ''text''
      | Button \<Rightarrow> ''button'' | ImageW \<Rightarrow> ''image'' | ImageBox \<Rightarrow> ''image-box''
      | IconBox \<Rightarrow> ''icon-box'' | IconList \<Rightarrow> ''icon-list'')"

definition compositeChild :: "layer \<Rightarrow> layer" where
  \<comment> \<open>the copy of a source layer that \<open>buildClassifiedLayer\<close> makes for a composite widget\<close>
  "compositeChild l =
     Node ((attrs l)\<lparr>
             widgetType := Some (i_widgetType (classifySingleLayer l)),
             badgeClass := Some
               (if type (attrs l) = Text then
                  (if (case textInfo (attrs l) of None \<Rightarrow> False | Some ti \<Rightarrow> fontSize ti \<ge> 24)
                   then ''heading'' else ''text'')
                else
                  (if hasImage (attrs l) \<or> type (attrs l) = Image
                   then ''image'' else ''container''))\<rparr>)
       (children l)"

definition buildClassifiedLayer :: "string \<Rightarrow> inference \<Rightarrow> real bounds \<Rightarrow> layer" where
  \<comment> \<open>the first argument is the result of \<open>generateId()\<close>\<close>
  "buildClassifiedLayer newId infr bnds =
     (let wt = i_widgetType infr;
          ls = i_layers infr;
          a0 = \<lparr>id_l = newId, name = ''Smart '' @ widgetName wt,
                type = (if wt = Container then Group
                        else (case ls of [] \<Rightarrow> Group | l # _ \<Rightarrow> type (attrs l))),
                visible = True, bounds = bnds, textInfo = None, textData = None,
                hasImage = False, widgetType = Some wt, badgeClass = None,
                isComposite = False, isSmartDetected = True,
                confidence = Some (i_confidence infr), compositeData = None,
                sourceLayerCount = None, layout = None, isRepeatingPattern = False,
                patternCount = None\<rparr>;
          a1 = (case i_compositeData infr of
                  None \<Rightarrow> a0
                | Some cd \<Rightarrow> a0\<lparr>compositeData := Some cd, isComposite := True\<rparr>);
          kids = (case i_compositeData infr of
                    None \<Rightarrow> []
                  | Some cd \<Rightarrow> map compositeChild ls);
          a2 = (if wt = Container then a1\<lparr>sourceLayerCount := Some (length ls)\<rparr> else a1);
          a3 = (if wt = Heading \<or> wt = TextEditor then
                  (case ls of
                     [] \<Rightarrow> a2
                   | l # _ \<Rightarrow>
                       (case textInfo (attrs l) of
                          None \<Rightarrow> a2
                        | Some ti \<Rightarrow> a2\<lparr>textInfo := Some ti\<rparr>))
                else a2)
      in Node a3 kids)"

definition buildWidgetFromLayer :: "string \<Rightarrow> layer \<Rightarrow> inference \<Rightarrow> layer" where
  \<comment> \<open>the first argument is the result of \<open>generateId()\<close>, used when the layer has no id\<close>
  "buildWidgetFromLayer newId l infr =
     Node \<lparr>id_l = (if lid l \<noteq> [] then lid l else newId), name = name (attrs l),
           type = type (attrs l), visible = visible (attrs l), bounds = lbounds l,
           textInfo = textInfo (attrs l), textData = None, hasImage = hasImage (attrs l),
           widgetType = Some (i_widgetType infr),
           badgeClass = Some (getBadgeClass (i_widgetType infr)),
           isComposite = False, isSmartDetected = True,
           confidence = Some (i_confidence infr), compositeData = None,
           sourceLayerCount = None, layout = None, isRepeatingPattern = False,
           patternCount = None\<rparr> []"

definition subClusterLayers :: "layer list \<Rightarrow> layer list list" where
  "subClusterLayers layers =
     (let subThreshold = PROXIMITY_THRESHOLD * (6 / 10)
      in clusterByProximity layers subThreshold)"

lemma subClusterLayers_smaller:
  assumes "(j, sub) \<in> set (enumerate 0 (subClusterLayers cluster))"
    "1 < length (subClusterLayers cluster)"
  shows "length sub < length cluster"
proof -
  have "sub \<in> set (subClusterLayers cluster)"
    using assms(1) by (auto simp: in_set_enumerate_eq)
  then show ?thesis
    using assms(2) unfolding subClusterLayers_def Let_def
    by (rule clusterByProximity_smaller)
qed

text \<open>
  \<open>generateId\<close> draws a random string. The model takes the ids from an oracle \<open>gen\<close> that
  is asked at the position of the call in the recursion: the path of child indices from
  the top-level row down to the element that is built.
\<close>

function processCluster :: "(nat list \<Rightarrow> string) \<Rightarrow> nat list \<Rightarrow> layer list \<Rightarrow> layer" where
  "processCluster gen path cluster =
     (let infr = inferWidgetType cluster;
          bnds = calculateClusterBounds cluster;
          element = buildClassifiedLayer (gen path) infr bnds;
          kids =
            (if i_widgetType infr = Container \<and> length cluster > 1 then
               (if length (subClusterLayers cluster) > 1 then
                  map (\<lambda>(j, sub). processCluster gen (path @ [j]) sub)
                    (enumerate 0 (subClusterLayers cluster))
                else
                  map (\<lambda>(j, l). buildWidgetFromLayer (gen (path @ [j])) l (inferWidgetType [l]))
                    (enumerate 0 cluster))
             else children element)
      in Node ((attrs element)\<lparr>badgeClass := Some (getBadgeClass (i_widgetType infr))\<rparr>) kids)"
  by pat_completeness auto
termination
proof (relation "measure (\<lambda>(gen, path, cluster). length cluster)")
  show "wf (measure (\<lambda>(gen, path, cluster). length cluster))" by simp
next
  fix gen :: "nat list \<Rightarrow> string" and path :: "nat list" and cluster :: "layer list"
    and x :: "nat \<times> layer list" and j :: nat and sub :: "layer list"
  assume "1 < length (subClusterLayers cluster)"
    and "x \<in> set (enumerate 0 (subClusterLayers cluster))" and "(j, sub) = x"
  then have "length sub < length cluster"
    using subClusterLayers_smaller [of j sub cluster] by simp
  then show "((gen, path @ [j], sub), (gen, path, cluster))
             \<in> measure (\<lambda>(gen, path, cluster). length cluster)"
    by simp
qed

declare processCluster.simps [simp del]

record pattern =
  p_isRepeating :: bool
  p_count :: "nat option"

definition detectRepeatingPattern :: "layer list list \<Rightarrow> pattern" where
  "detectRepeatingPattern clusters =
     (if length clusters < 2 then \<lparr>p_isRepeating = False, p_count = None\<rparr>
      else
        let bs = map calculateClusterBounds clusters;
            widths = map width bs;
            heights = map height bs;
            avgWidth = sum_list widths / real (length widths);
            avgHeight = sum_list heights / real (length heights);
            isRepeating =
              list_all (\<lambda>b. \<bar>width b - avgWidth\<bar> < avgWidth * (2 / 10) \<and>
                             \<bar>height b - avgHeight\<bar> < avgHeight * (2 / 10)) bs
        in \<lparr>p_isRepeating = isRepeating, p_count = Some (length clusters)\<rparr>)"

definition detectRepeatingPatterns :: "layer list list \<Rightarrow> pattern" where
  \<comment> \<open>of the result of the inference engine, the two fields that the orchestrator reads;
      the result for clusters that do not repeat has no count\<close>
  "detectRepeatingPatterns clusters =
     (let pat = detectRepeatingPattern clusters
      in if \<not> p_isRepeating pat then \<lparr>p_isRepeating = False, p_count = None\<rparr>
         else \<lparr>p_isRepeating = True, p_count = p_count pat\<rparr>)"

definition createRowContainer :: "(nat list \<Rightarrow> string) \<Rightarrow> nat list \<Rightarrow> layer list list \<Rightarrow> layer" where
  "createRowContainer gen path clusters =
     (let allLayers = concat clusters;
          bnds = calculateClusterBounds allLayers;
          pat = detectRepeatingPatterns clusters;
          container =
            \<lparr>id_l = gen path,
             name = (if p_isRepeating pat then ''Card Row'' else ''Row Container''),
             type = Group, visible = True, bounds = bnds, textInfo = None, textData = None,
             hasImage = False, widgetType = Some Container, badgeClass = Some ''container'',
             isComposite = False, isSmartDetected = True, confidence = None,
             compositeData = None, sourceLayerCount = None,
             layout = Some \<lparr>l_direction = Row, l_wrap = False, l_gap = None,
                             justifyContent = ''space-between'', alignItems = ''flex-start''\<rparr>,
             isRepeatingPattern = False, patternCount = None\<rparr>;
          kids = map (\<lambda>(j, cluster). processCluster gen (path @ [j]) cluster)
                   (enumerate 0 clusters)
      in Node (if p_isRepeating pat
               then container\<lparr>isRepeatingPattern := True, patternCount := p_count pat\<rparr>
               else container) kids)"

definition createColumnContainer :: "string \<Rightarrow> layer list \<Rightarrow> layer" where
  \<comment> \<open>the first argument is the result of \<open>generateId()\<close>. \<open>Math.min\<close> and \<open>Math.max\<close> of
      the spread bounds are the least and the greatest value of a list that is not empty:
      \<open>buildTree\<close> calls the function with two elements or more\<close>
  "createColumnContainer newId elements =
     (let allBounds = map lbounds elements;
          t = (case map top_b allBounds of [] \<Rightarrow> 0 | x # xs \<Rightarrow> foldl min x xs);
          l = (case map left allBounds of [] \<Rightarrow> 0 | x # xs \<Rightarrow> foldl min x xs);
          r = (case map right allBounds of [] \<Rightarrow> 0 | x # xs \<Rightarrow> foldl max x xs);
          b = (case map bottom allBounds of [] \<Rightarrow> 0 | x # xs \<Rightarrow> foldl max x xs)
      in Node \<lparr>id_l = newId, name = ''Root Container'', type = Group, visible = True,
               bounds = \<lparr>top_b = t, left = l, right = r, bottom = b,
                          width = r - l, height = b - t\<rparr>,
               textInfo = None, textData = None, hasImage = False,
               widgetType = Some Container, badgeClass = Some ''container'',
               isComposite = False, isSmartDetected = True, confidence = None,
               compositeData = None, sourceLayerCount = None,
               layout = Some \<lparr>l_direction = Column, l_wrap = False, l_gap = None,
                               justifyContent = ''flex-start'', alignItems = ''stretch''\<rparr>,
               isRepeatingPattern = False, patternCount = None\<rparr>
           elements)"

definition rowResults :: "(nat list \<Rightarrow> string) \<Rightarrow> layer list list list \<Rightarrow> layer list" where
  \<comment> \<open>the list \<open>result\<close> at the end of the \<open>for\<close> loop of \<open>buildTree\<close>\<close>
  "rowResults gen rows =
     concat (map (\<lambda>(i, row).
                    if row = [] then []
                    else if length row = 1 then [processCluster gen [i] (hd row)]
                    else [createRowContainer gen [i] row])
               (enumerate 0 rows))"

definition buildTree :: "(nat list \<Rightarrow> string) \<Rightarrow> layer list list list \<Rightarrow> layer list" where
  "buildTree gen rows =
     (let result = rowResults gen rows
      in if result = [] then []
         else if length result = 1 then result
         else [createColumnContainer (gen []) result])"

section \<open>The object store\<close>

text \<open>
  Layer nodes are JavaScript objects: two references may name one object, and an assignment
  to a field is seen through both. To speak about this the functions that create or assign
  objects are read a second time over an explicit store: an address is an index into the
  list of the objects created so far, an object is the record of its own fields, and a
  tree of layers is a tree of addresses (the \<open>children\<close> arrays). The bounds and the text
  style of a layer are values in its record: the new layers share these objects with
  their sources (\<open>bounds: layer.bounds\<close>), and no function of the core assigns to a field
  of the bounds or of the text style of a layer.
\<close>

type_synonym addr = nat

type_synonym store = "real attrs list"

datatype onode = ONode (ref: addr) (kids: "onode list")

definition alloc :: "store \<Rightarrow> real attrs \<Rightarrow> store \<times> addr" where
  \<comment> \<open>an object literal: a new object at the next address\<close>
  "alloc s a = (s @ [a], length s)"

definition writeField :: "store \<Rightarrow> addr \<Rightarrow> (real attrs \<Rightarrow> real attrs) \<Rightarrow> store" where
  \<comment> \<open>an assignment to fields of the object at address \<open>r\<close>; an address outside the
      store names no object, and the store stays as it is\<close>
  "writeField s r f = s[r := f (s ! r)]"

fun view :: "store \<Rightarrow> onode \<Rightarrow> layer" where
  \<comment> \<open>the layer that is read through a reference\<close>
  "view s (ONode r ks) = Node (s ! r) (map (view s) ks)"

fun refs :: "onode \<Rightarrow> addr list" where
  "refs (ONode r ks) = r # concat (map refs ks)"

fun subnodes :: "onode \<Rightarrow> onode list" where
  "subnodes (ONode r ks) = ONode r ks # concat (map subnodes ks)"

definition unchanged :: "store \<Rightarrow> store \<Rightarrow> bool" where
  \<comment> \<open>every object of \<open>s\<close> is in \<open>s'\<close> at its address, with the fields it had\<close>
  "unchanged s s' \<longleftrightarrow> take (length s) s' = s"

fun mapS :: "(store \<Rightarrow> 'a \<Rightarrow> store \<times> 'b) \<Rightarrow> store \<Rightarrow> 'a list \<Rightarrow> store \<times> 'b list" where
  \<comment> \<open>\<open>Array.prototype.map\<close> with a callback that works on the store, from left to right\<close>
  "mapS f s [] = (s, [])"
| "mapS f s (x # xs) =
     (case f s x of
        (s1, y) \<Rightarrow>
          (case mapS f s1 xs of
             (s2, ys) \<Rightarrow> (s2, y # ys)))"

lemma mapS_cong [fundef_cong]:
  "xs = ys \<Longrightarrow> s = t \<Longrightarrow> (\<And>x u. x \<in> set ys \<Longrightarrow> f u x = g u x) \<Longrightarrow> mapS f s xs = mapS g t ys"
proof (induction ys arbitrary: xs s t)
  case Nil
  then show ?case by simp
next
  case (Cons y ys)
  have "mapS f u ys = mapS g u ys" for u
    using Cons.IH [of ys u u] Cons.prems(3) by simp
  then show ?case
    using Cons.prems by simp
qed

subsection \<open>layerClassifier over the store\<close>

fun classifyLayer_s :: "store \<Rightarrow> onode \<Rightarrow> store \<times> onode" where
  "classifyLayer_s s (ONode r ks) =
     (let layer = view s (ONode r ks);
          (s1, n) = alloc s (s ! r);
          wt = determineWidgetType layer;
          s2 = writeField s1 n (\<lambda>a. a\<lparr>widgetType := Some wt\<rparr>);
          s3 = writeField s2 n (\<lambda>a. a\<lparr>badgeClass := Some (BADGE_CLASSES wt)\<rparr>)
      in if ks \<noteq> [] \<and> wt \<notin> set COMPOSITE_WIDGETS then
           (case mapS classifyLayer_s s3 ks of
              (s4, ks') \<Rightarrow>
                (case detectCompositeWidget (map (view s4) ks') of
                   Some compositeType \<Rightarrow>
                     if widgetType (s4 ! n) = Some Container then
                       (let s5 = writeField s4 n (\<lambda>a. a\<lparr>widgetType := Some compositeType\<rparr>);
                            s6 = writeField s5 n
                                   (\<lambda>a. a\<lparr>badgeClass := Some (BADGE_CLASSES compositeType)\<rparr>);
                            s7 = writeField s6 n (\<lambda>a. a\<lparr>isComposite := True\<rparr>)
                        in (s7, ONode n ks'))
                     else (s4, ONode n ks')
                 | None \<Rightarrow> (s4, ONode n ks')))
         else (s3, ONode n ks))"

definition classifyLayers_s :: "store \<Rightarrow> onode list \<Rightarrow> store \<times> onode list" where
  "classifyLayers_s s layers = mapS classifyLayer_s s layers"

subsection \<open>ImageBoxContentClassifier over the store\<close>

definition fillTextInfo_s :: "store \<Rightarrow> onode \<Rightarrow> store" where
  \<comment> \<open>\<open>child.textInfo ??= TextStyleExtractor.extract(child.textData)\<close> on a text child\<close>
  "fillTextInfo_s s child =
     (if type (s ! ref child) = Text \<and> textInfo (s ! ref child) = None
      then writeField s (ref child) (\<lambda>a. a\<lparr>textInfo := Some (extractStyle (textData a))\<rparr>)
      else s)"

definition classify_s :: "store \<Rightarrow> onode list \<Rightarrow> store" where
  \<comment> \<open>the store after \<open>classify(children)\<close>: the loop over the children, in order\<close>
  "classify_s s cs = foldl fillTextInfo_s s cs"

subsection \<open>The generator's calls of the content classifier\<close>

text \<open>
  Of the Elementor generator the model keeps what it does to the layers: the templates
  build new JSON objects and assign to no layer, except that \<open>createImageBoxWidget\<close> calls
  \<open>classify\<close> on \<open>layer.children\<close>. The functions below return the store after the call.
\<close>

definition generateWidget_s :: "store \<Rightarrow> onode \<Rightarrow> store" where
  "generateWidget_s s layer =
     (if widgetType (s ! ref layer) = Some ImageBox then classify_s s (kids layer) else s)"

fun generateElement_s :: "store \<Rightarrow> onode \<Rightarrow> store"
  and generateCompositeWidget_s :: "store \<Rightarrow> onode \<Rightarrow> store"
  and generateContainer_s :: "store \<Rightarrow> onode \<Rightarrow> store" where
  "generateElement_s s (ONode r ks) =
     (if isComposite (s ! r) then generateCompositeWidget_s s (ONode r ks)
      else if widgetType (s ! r) = Some Container \<or> ks \<noteq> [] then generateContainer_s s (ONode r ks)
      else generateWidget_s s (ONode r ks))"
| "generateCompositeWidget_s s (ONode r ks) =
     (if widgetType (s ! r) = Some ImageBox then classify_s s ks
      else if widgetType (s ! r) = Some IconBox then s
      else if widgetType (s ! r) = Some IconList then s
      else generateContainer_s s (ONode r ks))"
| "generateContainer_s s (ONode r ks) =
     foldl (\<lambda>s' child.
              if widgetType (s' ! ref child) = Some Container \<or>
                 (kids child \<noteq> [] \<and> \<not> isComposite (s' ! ref child))
              then generateElement_s s' child
              else generateWidget_s s' child) s ks"

definition createWrapperContainer_s :: "store \<Rightarrow> onode list \<Rightarrow> store" where
  "createWrapperContainer_s s widgets = foldl generateWidget_s s widgets"

fun wrapLoop_s :: "store \<Rightarrow> onode list \<Rightarrow> onode list \<Rightarrow> store" where
  \<comment> \<open>the \<open>for\<close> loop of \<open>wrapInContainers\<close> and the flush after it; the second argument is
      \<open>widgetBuffer\<close>\<close>
  "wrapLoop_s s widgetBuffer [] =
     (if widgetBuffer \<noteq> [] then createWrapperContainer_s s widgetBuffer else s)"
| "wrapLoop_s s widgetBuffer (layer # layers) =
     (if widgetType (s ! ref layer) = Some Container \<or> isComposite (s ! ref layer) \<or>
         (kids layer \<noteq> [] \<and> \<not> isComposite (s ! ref layer))
      then
        wrapLoop_s
          (generateElement_s
             (if widgetBuffer \<noteq> [] then createWrapperContainer_s s widgetBuffer else s) layer)
          [] layers
      else wrapLoop_s s (widgetBuffer @ [layer]) layers)"

definition wrapInContainers_s :: "store \<Rightarrow> onode list \<Rightarrow> store" where
  "wrapInContainers_s s layers = wrapLoop_s s [] layers"

definition generateElementorJson_s :: "store \<Rightarrow> onode list \<Rightarrow> store" where
  "generateElementorJson_s s layers = wrapInContainers_s s layers"


subsection \<open>RawPSDAdapter and buildClassifiedLayer over the store\<close>

text \<open>
  The tree is built from the leaves that \<open>flattenLayers\<close> returns. Their fields are read and
  passed on as values; what is followed in the store is every object that the tree building
  creates and every assignment it makes. A copy \<open>{...l}\<close> of a leaf has no children.
\<close>

definition copyChild_s :: "store \<Rightarrow> layer \<Rightarrow> store \<times> onode" where
  \<comment> \<open>the object literal \<open>{...l, widgetType: ..., badgeClass: ...}\<close>\<close>
  "copyChild_s s l = (case alloc s (attrs (compositeChild l)) of (s1, n) \<Rightarrow> (s1, ONode n []))"

definition buildClassifiedLayer_s ::
  "store \<Rightarrow> string \<Rightarrow> inference \<Rightarrow> real bounds \<Rightarrow> store \<times> onode" where
  "buildClassifiedLayer_s s newId infr bnds =
     (let wt = i_widgetType infr;
          ls = i_layers infr;
          (s1, n) = alloc s
            \<lparr>id_l = newId, name = ''Smart '' @ widgetName wt,
             type = (if wt = Container then Group
                     else (case ls of [] \<Rightarrow> Group | l # _ \<Rightarrow> type (attrs l))),
             visible = True, bounds = bnds, textInfo = None, textData = None,
             hasImage = False, widgetType = Some wt, badgeClass = None,
             isComposite = False, isSmartDetected = True,
             confidence = Some (i_confidence infr), compositeData = None,
             sourceLayerCount = None, layout = None, isRepeatingPattern = False,
             patternCount = None\<rparr>;
          (s2, ks) =
            (case i_compositeData infr of
               None \<Rightarrow> (s1, [])
             | Some cd \<Rightarrow>
                 (let sa = writeField s1 n (\<lambda>a. a\<lparr>compositeData := Some cd\<rparr>);
                      sb = writeField sa n (\<lambda>a. a\<lparr>isComposite := True\<rparr>)
                  in mapS copyChild_s sb ls));
          s3 = (if wt = Container
                then writeField s2 n (\<lambda>a. a\<lparr>sourceLayerCount := Some (length ls)\<rparr>)
                else s2);
          s4 = (if wt = Heading \<or> wt = TextEditor then
                  (case ls of
                     [] \<Rightarrow> s3
                   | l # _ \<Rightarrow>
                       (case textInfo (attrs l) of
                          None \<Rightarrow> s3
                        | Some ti \<Rightarrow> writeField s3 n (\<lambda>a. a\<lparr>textInfo := Some ti\<rparr>)))
                else s3)
      in (s4, ONode n ks))"

definition buildWidgetFromLayer_s ::
  "store \<Rightarrow> string \<Rightarrow> layer \<Rightarrow> inference \<Rightarrow> store \<times> onode" where
  "buildWidgetFromLayer_s s newId l infr =
     (let (s1, n) = alloc s
            \<lparr>id_l = (if lid l \<noteq> [] then lid l else newId), name = name (attrs l),
             type = type (attrs l), visible = visible (attrs l), bounds = lbounds l,
             textInfo = None, textData = None, hasImage = False,
             widgetType = Some (i_widgetType infr),
             badgeClass = Some (getBadgeClass (i_widgetType infr)),
             isComposite = False, isSmartDetected = True,
             confidence = Some (i_confidence infr), compositeData = None,
             sourceLayerCount = None, layout = None, isRepeatingPattern = False,
             patternCount = None\<rparr>;
          s2 = (case textInfo (attrs l) of
                  None \<Rightarrow> s1
                | Some ti \<Rightarrow> writeField s1 n (\<lambda>a. a\<lparr>textInfo := Some ti\<rparr>));
          s3 = (if hasImage (attrs l) then writeField s2 n (\<lambda>a. a\<lparr>hasImage := True\<rparr>) else s2)
      in (s3, ONode n []))"

function processCluster_s ::
  "(nat list \<Rightarrow> string) \<Rightarrow> nat list \<Rightarrow> store \<Rightarrow> layer list \<Rightarrow> store \<times> onode" where
  "processCluster_s gen path s cluster =
     (let infr = inferWidgetType cluster;
          bnds = calculateClusterBounds cluster;
          (s1, element) = buildClassifiedLayer_s s (gen path) infr bnds;
          (s2, ks) =
            (if i_widgetType infr = Container \<and> length cluster > 1 then
               (if length (subClusterLayers cluster) > 1 then
                  mapS (\<lambda>s' (j, sub). processCluster_s gen (path @ [j]) s' sub) s1
                    (enumerate 0 (subClusterLayers cluster))
                else
                  mapS (\<lambda>s' (j, l).
                          buildWidgetFromLayer_s s' (gen (path @ [j])) l (inferWidgetType [l])) s1
                    (enumerate 0 cluster))
             else (s1, kids element));
          s3 = writeField s2 (ref element)
                 (\<lambda>a. a\<lparr>badgeClass := Some (getBadgeClass (i_widgetType infr))\<rparr>)
      in (s3, ONode (ref element) ks))"
  by pat_completeness auto
termination
proof (relation "measure (\<lambda>(gen, path, s, cluster). length cluster)")
  show "wf (measure (\<lambda>(gen, path, s, cluster). length cluster))" by simp
next
  fix gen :: "nat list \<Rightarrow> string" and path :: "nat list" and cluster :: "layer list"
    and s s' :: store and x :: "nat \<times> layer list" and j :: nat and sub :: "layer list"
  assume "1 < length (subClusterLayers cluster)"
    and "x \<in> set (enumerate 0 (subClusterLayers cluster))" and "(j, sub) = x"
  then have "length sub < length cluster"
    using subClusterLayers_smaller [of j sub cluster] by simp
  then show "((gen, path @ [j], s', sub), (gen, path, s, cluster))
             \<in> measure (\<lambda>(gen, path, s, cluster). length cluster)"
    by simp
qed

declare processCluster_s.simps [simp del]

definition createRowContainer_s ::
  "(nat list \<Rightarrow> string) \<Rightarrow> nat list \<Rightarrow> store \<Rightarrow> layer list list \<Rightarrow> store \<times> onode" where
  "createRowContainer_s gen path s clusters =
     (let allLayers = concat clusters;
          bnds = calculateClusterBounds allLayers;
          pat = detectRepeatingPatterns clusters;
          (s1, ks) = mapS (\<lambda>s' (j, cluster). processCluster_s gen (path @ [j]) s' cluster) s
                       (enumerate 0 clusters);
          (s2, n) = alloc s1
            \<lparr>id_l = gen path,
             name = (if p_isRepeating pat then ''Card Row'' else ''Row Container''),
             type = Group, visible = True, bounds = bnds, textInfo = None, textData = None,
             hasImage = False, widgetType = Some Container, badgeClass = Some ''container'',
             isComposite = False, isSmartDetected = True, confidence = None,
             compositeData = None, sourceLayerCount = None,
             layout = Some \<lparr>l_direction = Row, l_wrap = False, l_gap = None,
                             justifyContent = ''space-between'', alignItems = ''flex-start''\<rparr>,
             isRepeatingPattern = False, patternCount = None\<rparr>;
          s3 = (if p_isRepeating pat
                then writeField (writeField s2 n (\<lambda>a. a\<lparr>isRepeatingPattern := True\<rparr>)) n
                       (\<lambda>a. a\<lparr>patternCount := p_count pat\<rparr>)
                else s2)
      in (s3, ONode n ks))"

definition createColumnContainer_s :: "store \<Rightarrow> string \<Rightarrow> onode list \<Rightarrow> store \<times> onode" where
  \<comment> \<open>the fields of the new object are those of \<open>createColumnContainer\<close>, computed from the
      bounds of the elements as they are in the store\<close>
  "createColumnContainer_s s newId elements =
     (case alloc s (attrs (createColumnContainer newId (map (view s) elements))) of
        (s1, n) \<Rightarrow> (s1, ONode n elements))"

definition rowResults_s ::
  "(nat list \<Rightarrow> string) \<Rightarrow> store \<Rightarrow> layer list list list \<Rightarrow> store \<times> onode list" where
  \<comment> \<open>the list \<open>result\<close> at the end of the \<open>for\<close> loop of \<open>buildTree\<close>\<close>
  "rowResults_s gen s rows =
     (case mapS (\<lambda>s' (i, row).
                   if row = [] then (s', [])
                   else if length row = 1 then
                     (case processCluster_s gen [i] s' (hd row) of (s1, n) \<Rightarrow> (s1, [n]))
                   else
                     (case createRowContainer_s gen [i] s' row of (s1, n) \<Rightarrow> (s1, [n])))
             s (enumerate 0 rows) of
        (s1, rs) \<Rightarrow> (s1, concat rs))"

definition buildTree_s ::
  "(nat list \<Rightarrow> string) \<Rightarrow> store \<Rightarrow> layer list list list \<Rightarrow> store \<times> onode list" where
  "buildTree_s gen s rows =
     (case rowResults_s gen s rows of
        (s1, result) \<Rightarrow>
          if result = [] then (s1, [])
          else if length result = 1 then (s1, result)
          else (case createColumnContainer_s s1 (gen []) result of (s2, n) \<Rightarrow> (s2, [n])))"


subsection \<open>Predicates on stores and trees of references\<close>

definition decoded :: "store \<Rightarrow> onode \<Rightarrow> bool" where
  \<comment> \<open>a tree of input nodes: its objects are in the store and none is marked composite\<close>
  "decoded s t \<longleftrightarrow> list_all (\<lambda>r. r < length s \<and> \<not> isComposite (s ! r)) (refs t)"

definition newNode :: "store \<Rightarrow> store \<Rightarrow> onode \<Rightarrow> bool" where
  \<comment> \<open>every object of the tree was created after \<open>s\<close>\<close>
  "newNode s s' t \<longleftrightarrow> list_all (\<lambda>r. length s \<le> r \<and> r < length s') (refs t)"

definition compositeKidsNew :: "nat \<Rightarrow> store \<Rightarrow> onode \<Rightarrow> bool" where
  \<comment> \<open>the children of every node marked composite are at address \<open>k\<close> or above\<close>
  "compositeKidsNew k s t \<longleftrightarrow>
     list_all (\<lambda>m. isComposite (s ! ref m) \<longrightarrow> list_all (\<lambda>c. k \<le> ref c) (kids m)) (subnodes t)"

definition classified :: "store \<Rightarrow> store \<Rightarrow> onode \<Rightarrow> onode \<Rightarrow> bool" where
  \<comment> \<open>\<open>y\<close> is a classified tree for \<open>x\<close>: its root is new, each of its objects is new or an
      object of \<open>x\<close>, and the children of its composite nodes are new\<close>
  "classified u u' x y \<longleftrightarrow>
     length u \<le> ref y \<and>
     (\<forall>r \<in> set (refs y). r < length u' \<and> (length u \<le> r \<or> r \<in> set (refs x))) \<and>
     compositeKidsNew (length u) u' y"

definition keeps :: "nat \<Rightarrow> store \<Rightarrow> store \<Rightarrow> bool" where
  \<comment> \<open>no object is created, the objects below address \<open>k\<close> are as they were, and no
      composite mark has changed\<close>
  "keeps k s s' \<longleftrightarrow>
     length s' = length s \<and> take k s' = take k s \<and>
     (\<forall>r. isComposite (s' ! r) = isComposite (s ! r))"

section \<open>Properties of the distance helper\<close>

lemma verticalDistance_nonneg: "0 \<le> verticalDistance a b"
  by (simp add: verticalDistance_def)

lemma horizontalDistance_nonneg: "0 \<le> horizontalDistance a b"
  by (simp add: horizontalDistance_def)

text \<open>
  Claim C7, as stated: \<open>smartDistance a b\<close> is the vertical gap when that gap is nonzero,
  else the horizontal gap when that is nonzero, else 0. It fails for two rectangles that
  are separated on both axes with the horizontal gap the smaller one: the vertical gap
  is 10, the horizontal gap is 5, and the code returns 5.
\<close>

theorem smartDistance_vertical_first_counterexample:
  "verticalDistance (rect 0 0 10 10) (rect 20 15 25 30) = 10 \<and>
   horizontalDistance (rect 0 0 10 10) (rect 20 15 25 30) = 5 \<and>
   smartDistance (rect 0 0 10 10) (rect 20 15 25 30) = 5 \<and>
   smartDistance (rect 0 0 10 10) (rect 20 15 25 30) \<noteq>
     (if verticalDistance (rect 0 0 10 10) (rect 20 15 25 30) \<noteq> 0
      then verticalDistance (rect 0 0 10 10) (rect 20 15 25 30)
      else if horizontalDistance (rect 0 0 10 10) (rect 20 15 25 30) \<noteq> 0
      then horizontalDistance (rect 0 0 10 10) (rect 20 15 25 30)
      else 0)"
  by (simp add: smartDistance_def verticalDistance_def horizontalDistance_def rect_def)

text \<open>
  Claim C7, amended: \<open>smartDistance a b\<close> is the smallest nonzero gap of the two axes:
  the vertical gap when it is nonzero and the horizontal gap is zero or not smaller,
  the horizontal gap otherwise; it is 0 exactly when the rectangles overlap on both
  axes (both gaps are 0).
\<close>

theorem smartDistance_smallest_nonzero_gap:
  "smartDistance a b =
     (if verticalDistance a b \<noteq> 0 \<and>
         (horizontalDistance a b = 0 \<or> verticalDistance a b \<le> horizontalDistance a b)
      then verticalDistance a b else horizontalDistance a b) \<and>
   (smartDistance a b = 0 \<longleftrightarrow> verticalDistance a b = 0 \<and> horizontalDistance a b = 0)"
  using verticalDistance_nonneg [of a b] horizontalDistance_nonneg [of a b]
  by (auto simp: smartDistance_def Let_def min_def)

theorem smartDistance_smallest_nonzero_gap_witness:
  "smartDistance (rect 0 0 10 10) (rect 20 15 25 30) =
     horizontalDistance (rect 0 0 10 10) (rect 20 15 25 30) \<and>
   smartDistance (rect 0 0 10 10) (rect 20 0 10 30) =
     verticalDistance (rect 0 0 10 10) (rect 20 0 10 30) \<and>
   smartDistance (rect 0 0 10 10) (rect 20 0 10 30) \<noteq> 0"
  using smartDistance_smallest_nonzero_gap [of "rect 0 0 10 10" "rect 20 15 25 30"]
    smartDistance_smallest_nonzero_gap [of "rect 0 0 10 10" "rect 20 0 10 30"]
  by (simp add: verticalDistance_def horizontalDistance_def rect_def)

section \<open>Properties of the gap computation\<close>

lemma box_sel [simp]:
  "left (lbounds (box i t l r b)) = l" "right (lbounds (box i t l r b)) = r"
  "top_b (lbounds (box i t l r b)) = t" "bottom (lbounds (box i t l r b)) = b"
  "width (lbounds (box i t l r b)) = r - l" "height (lbounds (box i t l r b)) = b - t"
  "lid (box i t l r b) = i"
  by (simp_all add: box_def leaf_def rect_def)

lemma gapsLoop_zip:
  "gapsLoop d xs =
     filter (\<lambda>g. 0 < g)
       (map (\<lambda>(a, b). axisDistance d (lbounds a) (lbounds b)) (zip xs (tl xs)))"
  by (induction d xs rule: gapsLoop.induct) (auto simp: Let_def)

lemma sorted_nth_filter_less:
  assumes "sorted (ys::real list)" "k < length ys"
  shows "length (filter (\<lambda>x. x < ys ! k) ys) \<le> k"
proof -
  have ge: "\<forall>x \<in> set (drop k ys). ys ! k \<le> x"
  proof
    fix x assume "x \<in> set (drop k ys)"
    then obtain i where i: "i < length (drop k ys)" "drop k ys ! i = x"
      by (auto simp: in_set_conv_nth)
    then have "x = ys ! (k + i)" "k + i < length ys" by auto
    with assms show "ys ! k \<le> x" by (simp add: sorted_nth_mono)
  qed
  have "filter (\<lambda>x. x < ys ! k) ys =
        filter (\<lambda>x. x < ys ! k) (take k ys) @ filter (\<lambda>x. x < ys ! k) (drop k ys)"
    by (metis append_take_drop_id filter_append)
  also have "filter (\<lambda>x. x < ys ! k) (drop k ys) = []"
    using ge by (auto simp: filter_empty_conv)
  finally have "length (filter (\<lambda>x. x < ys ! k) ys) =
                length (filter (\<lambda>x. x < ys ! k) (take k ys))"
    by simp
  also have "\<dots> \<le> length (take k ys)" by (rule length_filter_le)
  also have "\<dots> \<le> k" by simp
  finally show ?thesis .
qed

lemma sorted_nth_filter_le:
  assumes "sorted (ys::real list)" "k < length ys"
  shows "k < length (filter (\<lambda>x. x \<le> ys ! k) ys)"
proof -
  have le: "\<forall>x \<in> set (take (Suc k) ys). x \<le> ys ! k"
  proof
    fix x assume "x \<in> set (take (Suc k) ys)"
    then obtain i where i: "i < length (take (Suc k) ys)" "take (Suc k) ys ! i = x"
      by (auto simp: in_set_conv_nth)
    then have "x = ys ! i" "i \<le> k" by auto
    with assms show "x \<le> ys ! k" by (simp add: sorted_nth_mono)
  qed
  have "filter (\<lambda>x. x \<le> ys ! k) ys =
        filter (\<lambda>x. x \<le> ys ! k) (take (Suc k) ys) @
        filter (\<lambda>x. x \<le> ys ! k) (drop (Suc k) ys)"
    by (metis append_take_drop_id filter_append)
  also have "filter (\<lambda>x. x \<le> ys ! k) (take (Suc k) ys) = take (Suc k) ys"
    using le by (simp add: filter_id_conv)
  finally have "length (filter (\<lambda>x. x \<le> ys ! k) ys) \<ge> length (take (Suc k) ys)"
    by simp
  moreover have "length (take (Suc k) ys) = Suc k" using assms by simp
  ultimately show ?thesis by simp
qed

lemma length_filter_sort: "length (filter P (sort xs)) = length (filter P (xs::real list))"
proof -
  have "mset (filter P (sort xs)) = mset (filter P xs)" by simp
  then show ?thesis by (metis size_mset)
qed

lemma sort_Nil_iff: "sort (xs::real list) = [] \<longleftrightarrow> xs = []"
  by (metis length_0_conv length_sort)

lemma sort_middle_upper_median:
  assumes "xs \<noteq> []"
  shows "upper_median xs (sort xs ! (length xs div 2))"
proof -
  let ?ys = "sort xs" and ?k = "length xs div 2"
  have k: "?k < length ?ys" using assms by simp
  have s: "sorted ?ys" by simp
  have "?ys ! ?k \<in> set ?ys" using k by (rule nth_mem)
  then have m: "?ys ! ?k \<in> set xs" by simp
  have a: "length (filter (\<lambda>x. x < ?ys ! ?k) xs) \<le> ?k"
    using sorted_nth_filter_less [OF s k] by (simp add: length_filter_sort)
  have b: "?k < length (filter (\<lambda>x. x \<le> ?ys ! ?k) xs)"
    using sorted_nth_filter_le [OF s k] by (simp add: length_filter_sort)
  show ?thesis unfolding upper_median_def using m a b by simp
qed

text \<open>
  Claim C5, as stated: \<open>calculateGap\<close> returns the median of the positive gaps, 0 when
  there are fewer than two positive gaps, and 11.5 for the adjacent gaps 10, 12, 11, 90.
  It fails twice: for five boxes in a row with these four gaps the code returns 12, the
  element at index \<open>floor (4 / 2)\<close> of the sorted gaps, and for two boxes with the single
  positive gap 10 it returns 10, not 0.
\<close>

theorem calculateGap_median_counterexample:
  "gapsLoop Row [box ''a'' 0 0 10 10, box ''b'' 0 20 30 10, box ''c'' 0 42 52 10,
                 box ''d'' 0 63 73 10, box ''e'' 0 163 173 10] = [10, 12, 11, 90] \<and>
   calculateGap [box ''a'' 0 0 10 10, box ''b'' 0 20 30 10, box ''c'' 0 42 52 10,
                 box ''d'' 0 63 73 10, box ''e'' 0 163 173 10] Row = 12 \<and>
   calculateGap [box ''a'' 0 0 10 10, box ''b'' 0 20 30 10, box ''c'' 0 42 52 10,
                 box ''d'' 0 63 73 10, box ''e'' 0 163 173 10] Row \<noteq> 23 / 2 \<and>
   gapsLoop Row [box ''a'' 0 0 10 10, box ''b'' 0 20 30 10] = [10] \<and>
   calculateGap [box ''a'' 0 0 10 10, box ''b'' 0 20 30 10] Row = 10"
  by (simp add: axisDistance_def horizontalDistance_def Let_def calculateGap_def)

text \<open>
  Claim C5, amended: \<open>calculateGap\<close> sorts the children along the chosen axis (stable, by
  \<open>left\<close> for a row and by \<open>top\<close> otherwise), takes the positive ones of the gaps
  between consecutive children, and returns the element in the middle of the sorted
  positive gaps, the upper of the two middle ones when their number is even (the median
  when it is odd). It returns 0 when there are fewer than two children or no positive gap.
\<close>

theorem calculateGap_upper_median:
  "(length cs < 2 \<longrightarrow> calculateGap cs d = 0) \<and>
   (2 \<le> length cs \<longrightarrow>
      (let sorted = sort_key (\<lambda>c. if d = Row then left (lbounds c) else top_b (lbounds c)) cs;
           gaps = filter (\<lambda>g. 0 < g)
                    (map (\<lambda>(a, b). axisDistance d (lbounds a) (lbounds b))
                      (zip sorted (tl sorted)))
       in (gaps = [] \<longrightarrow> calculateGap cs d = 0) \<and>
          (gaps \<noteq> [] \<longrightarrow> upper_median gaps (calculateGap cs d))))"
proof (intro conjI impI)
  assume "length cs < 2"
  then show "calculateGap cs d = 0" by (simp add: calculateGap_def)
next
  assume len: "2 \<le> length cs"
  let ?sorted = "sort_key (\<lambda>c. if d = Row then left (lbounds c) else top_b (lbounds c)) cs"
  let ?gaps = "gapsLoop d ?sorted"
  have cg: "calculateGap cs d =
            (if ?gaps \<noteq> [] then sort ?gaps ! (length ?gaps div 2) else 0)"
    using len by (simp add: calculateGap_def Let_def sort_Nil_iff)
  have "(?gaps = [] \<longrightarrow> calculateGap cs d = 0) \<and>
        (?gaps \<noteq> [] \<longrightarrow> upper_median ?gaps (calculateGap cs d))"
    using cg sort_middle_upper_median [of ?gaps] by simp
  then show "let sorted = ?sorted;
           gaps = filter (\<lambda>g. 0 < g)
                    (map (\<lambda>(a, b). axisDistance d (lbounds a) (lbounds b))
                      (zip sorted (tl sorted)))
       in (gaps = [] \<longrightarrow> calculateGap cs d = 0) \<and>
          (gaps \<noteq> [] \<longrightarrow> upper_median gaps (calculateGap cs d))"
    unfolding Let_def gapsLoop_zip [symmetric] .
qed

theorem calculateGap_upper_median_witness:
  "calculateGap [box ''a'' 0 0 10 10, box ''b'' 0 20 30 10, box ''c'' 0 42 52 10,
                 box ''d'' 0 63 73 10, box ''e'' 0 163 173 10] Row = 12 \<and>
   upper_median [10, 12, 11, 90]
     (calculateGap [box ''a'' 0 0 10 10, box ''b'' 0 20 30 10, box ''c'' 0 42 52 10,
                    box ''d'' 0 63 73 10, box ''e'' 0 163 173 10] Row) \<and>
   calculateGap [box ''a'' 0 0 10 10] Row = 0"
  using calculateGap_upper_median
          [of "[box ''a'' 0 0 10 10, box ''b'' 0 20 30 10, box ''c'' 0 42 52 10,
                box ''d'' 0 63 73 10, box ''e'' 0 163 173 10]" Row]
    calculateGap_upper_median [of "[box ''a'' 0 0 10 10]" Row]
  by (simp add: axisDistance_def horizontalDistance_def Let_def calculateGap_def)

section \<open>Properties of the structure inference\<close>

lemma foldl_hasImage:
  "c_hasImage (foldl analyzeLayer c xs) \<longleftrightarrow>
     c_hasImage c \<or> (\<exists>l \<in> set xs. \<not> isTextLayer l \<and> isImageLayer l \<and>
        \<not> (width (lbounds l) \<le> 100 \<and> height (lbounds l) \<le> 100))"
  by (induction xs arbitrary: c) (auto simp: analyzeLayer_def Let_def ICON_MAX_SIZE_def)

lemma foldl_hasSmallImage:
  "c_hasSmallImage (foldl analyzeLayer c xs) \<longleftrightarrow>
     c_hasSmallImage c \<or> (\<exists>l \<in> set xs. \<not> isTextLayer l \<and> isImageLayer l \<and>
        width (lbounds l) \<le> 100 \<and> height (lbounds l) \<le> 100)"
  by (induction xs arbitrary: c) (auto simp: analyzeLayer_def Let_def ICON_MAX_SIZE_def)

lemma foldl_hasHeading:
  "c_hasHeading (foldl analyzeLayer c xs) \<longleftrightarrow>
     c_hasHeading c \<or> (\<exists>l \<in> set xs. isTextLayer l \<and> 24 \<le> fontSizeOf l)"
  by (induction xs arbitrary: c) (auto simp: analyzeLayer_def Let_def HEADING_FONT_SIZE_def)

lemma foldl_hasButtonShape:
  "c_hasButtonShape (foldl analyzeLayer c xs) \<longleftrightarrow>
     c_hasButtonShape c \<or> (\<exists>l \<in> set xs. \<not> isTextLayer l \<and> isImageLayer l \<and> isButtonShape l)"
  by (induction xs arbitrary: c) (auto simp: analyzeLayer_def Let_def)

lemma foldl_textCount:
  "c_textCount (foldl analyzeLayer c xs) = c_textCount c + length (filter isTextLayer xs)"
  by (induction xs arbitrary: c) (auto simp: analyzeLayer_def Let_def)

lemma tleaf_sel [simp]:
  "isTextLayer (tleaf i n fs b)" "fontSizeOf (tleaf i n fs b) = (if fs = 0 then 16 else fs)"
  "lbounds (tleaf i n fs b) = b" "lid (tleaf i n fs b) = i" "name (attrs (tleaf i n fs b)) = n"
  by (simp_all add: tleaf_def leaf_def isTextLayer_def fontSizeOf_def)

lemma box_kind [simp]:
  "\<not> isTextLayer (box i t l r b)" "isImageLayer (box i t l r b)"
  by (simp_all add: box_def leaf_def isTextLayer_def isImageLayer_def)

text \<open>
  Claim C4: for a cluster of two or more layers, \<open>inferWidgetType\<close> tests the image-box
  pattern first: a regular image (an image or shape layer without text that is wider or
  higher than 100) together with a heading (a text layer with font size at least 24)
  gives \<open>image-box\<close> with confidence 0.85, whatever else the cluster holds. A cluster
  with at least three text layers and no image layer gives \<open>icon-list\<close> with confidence
  0.7; the heading counts as one of the texts.
\<close>

theorem inferWidgetType_image_box_icon_list:
  "(2 \<le> length cluster \<and>
    (\<exists>l \<in> set cluster. \<not> isTextLayer l \<and> isImageLayer l \<and>
        \<not> (width (lbounds l) \<le> 100 \<and> height (lbounds l) \<le> 100)) \<and>
    (\<exists>l \<in> set cluster. isTextLayer l \<and> 24 \<le> fontSizeOf l)
    \<longrightarrow> i_widgetType (inferWidgetType cluster) = ImageBox \<and>
        i_confidence (inferWidgetType cluster) = 85 / 100) \<and>
   (3 \<le> length (filter isTextLayer cluster) \<and>
    (\<forall>l \<in> set cluster. isTextLayer l \<or> \<not> isImageLayer l)
    \<longrightarrow> i_widgetType (inferWidgetType cluster) = IconList \<and>
        i_confidence (inferWidgetType cluster) = 7 / 10)"
proof (intro conjI impI)
  assume h: "2 \<le> length cluster \<and>
    (\<exists>l \<in> set cluster. \<not> isTextLayer l \<and> isImageLayer l \<and>
        \<not> (width (lbounds l) \<le> 100 \<and> height (lbounds l) \<le> 100)) \<and>
    (\<exists>l \<in> set cluster. isTextLayer l \<and> 24 \<le> fontSizeOf l)"
  let ?c = "analyzeComposition cluster"
  have "c_hasImage ?c" "c_hasHeading ?c"
    using h by (simp_all add: analyzeComposition_def foldl_hasImage foldl_hasHeading)
  moreover have "cluster \<noteq> []" "length cluster \<noteq> 1" using h by auto
  ultimately have "inferWidgetType cluster =
      \<lparr>i_widgetType = ImageBox, i_confidence = 85 / 100, i_layers = cluster,
       i_compositeData = Some (extractImageBoxData cluster ?c)\<rparr>"
    by (simp add: inferWidgetType_def Let_def)
  then show "i_widgetType (inferWidgetType cluster) = ImageBox"
    "i_confidence (inferWidgetType cluster) = 85 / 100" by simp_all
next
  assume h: "3 \<le> length (filter isTextLayer cluster) \<and>
    (\<forall>l \<in> set cluster. isTextLayer l \<or> \<not> isImageLayer l)"
  let ?c = "analyzeComposition cluster"
  have "length (filter isTextLayer cluster) \<le> length cluster" by (rule length_filter_le)
  then have "3 \<le> length cluster" using h by linarith
  then have len: "cluster \<noteq> []" "length cluster \<noteq> 1" by auto
  have flags: "\<not> c_hasImage ?c" "\<not> c_hasSmallImage ?c" "\<not> c_hasButtonShape ?c"
    using h by (auto simp: analyzeComposition_def foldl_hasImage foldl_hasSmallImage
        foldl_hasButtonShape emptyComposition_def)
  have cnt: "3 \<le> c_textCount ?c"
    using h by (simp add: analyzeComposition_def foldl_textCount emptyComposition_def)
  have "inferWidgetType cluster =
      \<lparr>i_widgetType = IconList, i_confidence = 7 / 10, i_layers = cluster,
       i_compositeData = Some (ListData (c_texts ?c))\<rparr>"
    using len flags cnt by (simp add: inferWidgetType_def Let_def)
  then show "i_widgetType (inferWidgetType cluster) = IconList"
    "i_confidence (inferWidgetType cluster) = 7 / 10" by simp_all
qed

theorem inferWidgetType_image_box_icon_list_witness:
  "i_widgetType (inferWidgetType
      [box ''img'' 0 0 200 150, tleaf ''h'' ''Welcome'' 28 (rect 160 0 200 190)]) = ImageBox \<and>
   i_confidence (inferWidgetType
      [box ''img'' 0 0 200 150, tleaf ''h'' ''Welcome'' 28 (rect 160 0 200 190)]) = 85 / 100 \<and>
   i_widgetType (inferWidgetType
      [tleaf ''h'' ''Welcome'' 28 (rect 0 0 200 30), tleaf ''a'' ''first'' 14 (rect 40 0 200 55),
       tleaf ''b'' ''second'' 14 (rect 60 0 200 75)]) = IconList \<and>
   i_confidence (inferWidgetType
      [tleaf ''h'' ''Welcome'' 28 (rect 0 0 200 30), tleaf ''a'' ''first'' 14 (rect 40 0 200 55),
       tleaf ''b'' ''second'' 14 (rect 60 0 200 75)]) = 7 / 10"
  using inferWidgetType_image_box_icon_list
          [of "[box ''img'' 0 0 200 150, tleaf ''h'' ''Welcome'' 28 (rect 160 0 200 190)]"]
        inferWidgetType_image_box_icon_list
          [of "[tleaf ''h'' ''Welcome'' 28 (rect 0 0 200 30), tleaf ''a'' ''first'' 14 (rect 40 0 200 55),
                tleaf ''b'' ''second'' 14 (rect 60 0 200 75)]"]
  by simp

section \<open>Properties of the text role classifier\<close>

lemma testPrefix_title_desc:
  "testPrefix NAME_PATTERNS_heading ''title_x''"
  "\<not> testPrefix NAME_PATTERNS_description ''title_x''"
  "\<not> testPrefix NAME_PATTERNS_heading ''desc_y''"
  "testPrefix NAME_PATTERNS_description ''desc_y''"
  by (simp_all add: testPrefix_def NAME_PATTERNS_heading_def NAME_PATTERNS_description_def
      startsWith_def toLowerCase_def toLowerChar_def)

lemma scoreLayer_title:
  assumes "name (attrs t) = ''title_x''" "textInfo (attrs t) = Some ti" "fontSize ti = 30"
  shows "\<exists>s. scoreLayer t = Some s \<and> s_layer s = t \<and> 55 \<le> s_score s"
  using assms by (simp add: scoreLayer_def Let_def testPrefix_title_desc)

lemma scoreLayer_desc:
  assumes "name (attrs d) = ''desc_y''" "textInfo (attrs d) = Some di" "fontSize di = 14"
  shows "\<exists>s. scoreLayer d = Some s \<and> s_layer s = d \<and> s_score s \<le> - 35"
  using assms by (simp add: scoreLayer_def Let_def testPrefix_title_desc)

lemma classifyTextLayers_two:
  assumes "scoreLayer t = Some st" "s_layer st = t" "scoreLayer d = Some sd" "s_layer sd = d"
    "s_score sd < s_score st"
  shows "classifyTextLayers [t, d] = Some (Some t, Some d)"
    "classifyTextLayers [d, t] = Some (Some t, Some d)"
  using assms by (simp_all add: classifyTextLayers_def Let_def)

lemma fillTextInfo_id: "textInfo (attrs l) \<noteq> None \<Longrightarrow> fillTextInfo l = l"
  by (auto simp: fillTextInfo_def)

text \<open>
  Claim C6: two text candidates named \<open>title_x\<close> with font size 30 and \<open>desc_y\<close> with
  font size 14 are scored so that \<open>title_x\<close> is the heading and \<open>desc_y\<close> the
  description, in both input orders, whatever their texts, weights and positions; the
  same roles come out of \<open>classify\<close> when both are text layers.
\<close>

theorem classifyTextLayers_title_desc:
  assumes "name (attrs t) = ''title_x''" "textInfo (attrs t) = Some ti" "fontSize ti = 30"
    and "name (attrs d) = ''desc_y''" "textInfo (attrs d) = Some di" "fontSize di = 14"
  shows "classifyTextLayers [t, d] = Some (Some t, Some d) \<and>
         classifyTextLayers [d, t] = Some (Some t, Some d) \<and>
         (type (attrs t) = Text \<and> type (attrs d) = Text \<longrightarrow>
            map_option r_heading (fst (classify h [t, d])) = Some (Some t) \<and>
            map_option r_description (fst (classify h [t, d])) = Some (Some d) \<and>
            map_option r_heading (fst (classify h [d, t])) = Some (Some t) \<and>
            map_option r_description (fst (classify h [d, t])) = Some (Some d))"
proof -
  obtain st where st: "scoreLayer t = Some st" "s_layer st = t" "55 \<le> s_score st"
    using scoreLayer_title [OF assms(1-3)] by blast
  obtain sd where sd: "scoreLayer d = Some sd" "s_layer sd = d" "s_score sd \<le> - 35"
    using scoreLayer_desc [OF assms(4-6)] by blast
  have lt: "s_score sd < s_score st" using st(3) sd(3) by linarith
  note two = classifyTextLayers_two [OF st(1,2) sd(1,2) lt]
  have fill: "fillTextInfo t = t" "fillTextInfo d = d"
    using assms by (simp_all add: fillTextInfo_id)
  show ?thesis
    using two fill by (simp add: classify_def Let_def)
qed

theorem classifyTextLayers_title_desc_witness:
  "classifyTextLayers [tleaf ''1'' ''title_x'' 30 (rect 0 0 200 40),
                       tleaf ''2'' ''desc_y'' 14 (rect 50 0 200 70)] =
     Some (Some (tleaf ''1'' ''title_x'' 30 (rect 0 0 200 40)),
           Some (tleaf ''2'' ''desc_y'' 14 (rect 50 0 200 70))) \<and>
   classifyTextLayers [tleaf ''2'' ''desc_y'' 14 (rect 50 0 200 70),
                       tleaf ''1'' ''title_x'' 30 (rect 0 0 200 40)] =
     Some (Some (tleaf ''1'' ''title_x'' 30 (rect 0 0 200 40)),
           Some (tleaf ''2'' ''desc_y'' 14 (rect 50 0 200 70))) \<and>
   map_option r_heading
     (fst (classify 18 [tleaf ''2'' ''desc_y'' 14 (rect 50 0 200 70),
                        tleaf ''1'' ''title_x'' 30 (rect 0 0 200 40)])) =
     Some (Some (tleaf ''1'' ''title_x'' 30 (rect 0 0 200 40)))"
  using classifyTextLayers_title_desc
    [of "tleaf ''1'' ''title_x'' 30 (rect 0 0 200 40)"
        "\<lparr>text = ''title_x'', fontSize = 30, fontWeight = ''normal''\<rparr>"
        "tleaf ''2'' ''desc_y'' 14 (rect 50 0 200 70)"
        "\<lparr>text = ''desc_y'', fontSize = 14, fontWeight = ''normal''\<rparr>" 18]
  by (simp add: tleaf_def leaf_def)

section \<open>Properties of the layer classifier\<close>

lemma detectCompositeWidget_complex:
  assumes "\<exists>c \<in> set cs. widgetType (attrs c) \<in>
             {Some ImageBox, Some IconBox, Some IconList, Some Container, Some Button}"
  shows "detectCompositeWidget cs = None"
proof -
  from assms have "list_ex (\<lambda>t. t \<in> set [Some ImageBox, Some IconBox, Some IconList,
                                      Some Container, Some Button]) (map (\<lambda>c. widgetType (attrs c)) cs)"
    by (auto simp: list_ex_iff)
  then show ?thesis by (simp add: detectCompositeWidget_def Let_def)
qed

lemma classifyLayer_children:
  "children (classifyLayer l) =
     (if children l \<noteq> [] \<and> determineWidgetType l \<notin> set COMPOSITE_WIDGETS
      then map classifyLayer (children l) else children l)"
  by (cases l) (simp add: Let_def split: option.splits)

lemmas pattern_eval =
  determineWidgetType_def testPrefix_def startsWith_def toLowerCase_def toLowerChar_def
  PATTERNS_heading_def PATTERNS_button_def PATTERNS_image_def PATTERNS_text_def
  PATTERNS_iconBox_def PATTERNS_imageBox_def PATTERNS_iconList_def PATTERNS_container_def

lemma dwt_examples:
  "determineWidgetType (groupNode i ''Group 1'' b cs) = Container"
  "determineWidgetType (groupNode i ''Group 2'' b cs) = Container"
  "determineWidgetType (groupNode i ''Header'' b cs) = Heading"
  "determineWidgetType (box ''img1'' t l r bo) = ImageW"
  "determineWidgetType (box ''img2'' t l r bo) = ImageW"
  "determineWidgetType (tleaf i ''Title'' fs b) = Heading"
  "determineWidgetType (tleaf i ''Headline'' fs b) = Heading"
  by (simp_all add: pattern_eval groupNode_def leaf_def box_def tleaf_def Let_def)

lemma classifyLayer_leaf_widgetType:
  "children l = [] \<Longrightarrow> widgetType (attrs (classifyLayer l)) = Some (determineWidgetType l)"
  by (cases l) (simp add: Let_def)

lemma leaves_children [simp]:
  "children (box i t l r bo) = []" "children (tleaf i n fs b) = []"
  "children (groupNode i n b cs) = cs"
  by (simp_all add: box_def tleaf_def leaf_def groupNode_def)

lemma card_collapses:
  "widgetType (attrs (classifyLayer (groupNode ''g2'' ''Group 2'' (rect 0 0 200 200)
      [box ''img1'' 0 0 200 150, tleaf ''t1'' ''Title'' 28 (rect 160 0 200 190)]))) = Some ImageBox"
  by (simp add: groupNode_def Let_def dwt_examples [unfolded groupNode_def]
       COMPOSITE_WIDGETS_def detectCompositeWidget_def classifyLayer_leaf_widgetType)

lemma image_heading_pattern:
  "detectCompositeWidget (map classifyLayer
      [box ''img2'' 0 210 200 360, tleaf ''t2'' ''Headline'' 30 (rect 370 0 200 400)]) =
     Some ImageBox"
  by (simp add: detectCompositeWidget_def Let_def classifyLayer_leaf_widgetType dwt_examples)

text \<open>
  Claim C3, as stated: a group whose children include one already classified as image-box,
  icon-box, icon-list, container or button keeps the widget type container; a group with
  an image-box child and a heading child classifies as container. \<open>determineWidgetType\<close>
  tests the name patterns before the kind of the layer, so a group named \<open>Header\<close> with
  these two children is a heading, not a container.
\<close>

theorem composite_suppression_named_group_counterexample:
  "type (attrs (groupNode ''g1'' ''Header'' (rect 0 0 200 250)
      [groupNode ''g2'' ''Group 2'' (rect 0 0 200 200)
         [box ''img1'' 0 0 200 150, tleaf ''t1'' ''Title'' 28 (rect 160 0 200 190)],
       tleaf ''t2'' ''Headline'' 30 (rect 210 0 200 250)])) = Group \<and>
   map (\<lambda>c. widgetType (attrs c))
     (children (classifyLayer (groupNode ''g1'' ''Header'' (rect 0 0 200 250)
      [groupNode ''g2'' ''Group 2'' (rect 0 0 200 200)
         [box ''img1'' 0 0 200 150, tleaf ''t1'' ''Title'' 28 (rect 160 0 200 190)],
       tleaf ''t2'' ''Headline'' 30 (rect 210 0 200 250)]))) = [Some ImageBox, Some Heading] \<and>
   widgetType (attrs (classifyLayer (groupNode ''g1'' ''Header'' (rect 0 0 200 250)
      [groupNode ''g2'' ''Group 2'' (rect 0 0 200 200)
         [box ''img1'' 0 0 200 150, tleaf ''t1'' ''Title'' 28 (rect 160 0 200 190)],
       tleaf ''t2'' ''Headline'' 30 (rect 210 0 200 250)]))) = Some Heading \<and>
   widgetType (attrs (classifyLayer (groupNode ''g1'' ''Header'' (rect 0 0 200 250)
      [groupNode ''g2'' ''Group 2'' (rect 0 0 200 200)
         [box ''img1'' 0 0 200 150, tleaf ''t1'' ''Title'' 28 (rect 160 0 200 190)],
       tleaf ''t2'' ''Headline'' 30 (rect 210 0 200 250)]))) \<noteq> Some Container"
proof -
  let ?card = "groupNode ''g2'' ''Group 2'' (rect 0 0 200 200)
         [box ''img1'' 0 0 200 150, tleaf ''t1'' ''Title'' 28 (rect 160 0 200 190)]"
  let ?h = "tleaf ''t2'' ''Headline'' 30 (rect 210 0 200 250)"
  let ?g = "groupNode ''g1'' ''Header'' (rect 0 0 200 250) [?card, ?h]"
  have t: "type (attrs ?g) = Group" by (simp add: groupNode_def leaf_def)
  have d: "determineWidgetType ?g = Heading" by (rule dwt_examples)
  have ch: "children (classifyLayer ?g) = [classifyLayer ?card, classifyLayer ?h]"
    by (simp add: classifyLayer_children d COMPOSITE_WIDGETS_def)
  have tys: "map (\<lambda>c. widgetType (attrs c)) (children (classifyLayer ?g)) =
             [Some ImageBox, Some Heading]"
    unfolding ch by (simp add: card_collapses classifyLayer_leaf_widgetType dwt_examples)
  have none: "detectCompositeWidget (map classifyLayer [?card, ?h]) = None"
    by (rule detectCompositeWidget_complex) (simp add: card_collapses)
  have w: "widgetType (attrs (classifyLayer ?g)) = Some Heading"
    using none d by (simp add: groupNode_def Let_def COMPOSITE_WIDGETS_def)
  show ?thesis using t tys w by simp
qed

text \<open>
  Claim C3, amended: \<open>detectCompositeWidget\<close> answers \<open>null\<close> as soon as one child is
  classified as image-box, icon-box, icon-list, container or button, whatever pattern the
  children match otherwise. So a group that \<open>determineWidgetType\<close> makes a container, with
  such a child, is never collapsed into a composite widget: it keeps the widget type
  container and is not marked composite. In general a layer with such a child keeps the
  widget type of its own name and kind. The witness has a group that is a container by
  its name and kind with an image-box child and a heading child, and one with an
  image-box child, an image and a heading, whose image and heading alone match the
  image-box pattern.
\<close>

theorem composite_suppression:
  "(\<forall>cs. (\<exists>c \<in> set cs. widgetType (attrs c) \<in>
             {Some ImageBox, Some IconBox, Some IconList, Some Container, Some Button})
         \<longrightarrow> detectCompositeWidget cs = None) \<and>
   ((\<exists>c \<in> set (children l). widgetType (attrs (classifyLayer c)) \<in>
             {Some ImageBox, Some IconBox, Some IconList, Some Container, Some Button}) \<and>
    determineWidgetType l = Container
      \<longrightarrow> widgetType (attrs (classifyLayer l)) = Some Container \<and>
          isComposite (attrs (classifyLayer l)) = isComposite (attrs l)) \<and>
   ((\<exists>c \<in> set (children l). widgetType (attrs (classifyLayer c)) \<in>
             {Some ImageBox, Some IconBox, Some IconList, Some Container, Some Button})
      \<longrightarrow> widgetType (attrs (classifyLayer l)) = Some (determineWidgetType l))"
proof -
  have a: "\<forall>cs. (\<exists>c \<in> set cs. widgetType (attrs c) \<in>
             {Some ImageBox, Some IconBox, Some IconList, Some Container, Some Button})
         \<longrightarrow> detectCompositeWidget cs = None"
    using detectCompositeWidget_complex by blast
  have b: "widgetType (attrs (classifyLayer l)) = Some (determineWidgetType l) \<and>
           isComposite (attrs (classifyLayer l)) = isComposite (attrs l)"
    if h: "\<exists>c \<in> set (children l). widgetType (attrs (classifyLayer c)) \<in>
             {Some ImageBox, Some IconBox, Some IconList, Some Container, Some Button}"
  proof -
    obtain a0 cs where l: "l = Node a0 cs" by (cases l)
    have "\<exists>c \<in> set (map classifyLayer cs). widgetType (attrs c) \<in>
             {Some ImageBox, Some IconBox, Some IconList, Some Container, Some Button}"
      using h l by auto
    then have none: "detectCompositeWidget (map classifyLayer cs) = None"
      by (rule detectCompositeWidget_complex)
    show ?thesis using none l by (simp add: Let_def)
  qed
  show ?thesis
  proof (intro conjI impI)
    show "\<forall>cs. (\<exists>c \<in> set cs. widgetType (attrs c) \<in>
             {Some ImageBox, Some IconBox, Some IconList, Some Container, Some Button})
         \<longrightarrow> detectCompositeWidget cs = None" by (rule a)
  next
    assume h: "(\<exists>c \<in> set (children l). widgetType (attrs (classifyLayer c)) \<in>
             {Some ImageBox, Some IconBox, Some IconList, Some Container, Some Button}) \<and>
        determineWidgetType l = Container"
    then show "widgetType (attrs (classifyLayer l)) = Some Container" using b by simp
    from h show "isComposite (attrs (classifyLayer l)) = isComposite (attrs l)"
      using b by simp
  next
    assume "\<exists>c \<in> set (children l). widgetType (attrs (classifyLayer c)) \<in>
             {Some ImageBox, Some IconBox, Some IconList, Some Container, Some Button}"
    then show "widgetType (attrs (classifyLayer l)) = Some (determineWidgetType l)"
      using b by simp
  qed
qed

theorem composite_suppression_witness:
  "widgetType (attrs (classifyLayer (groupNode ''g2'' ''Group 2'' (rect 0 0 200 200)
      [box ''img1'' 0 0 200 150, tleaf ''t1'' ''Title'' 28 (rect 160 0 200 190)]))) = Some ImageBox \<and>
   determineWidgetType (groupNode ''g1'' ''Group 1'' (rect 0 0 200 250)
      [groupNode ''g2'' ''Group 2'' (rect 0 0 200 200)
         [box ''img1'' 0 0 200 150, tleaf ''t1'' ''Title'' 28 (rect 160 0 200 190)],
       tleaf ''t2'' ''Headline'' 30 (rect 210 0 200 250)]) = Container \<and>
   widgetType (attrs (classifyLayer (groupNode ''g1'' ''Group 1'' (rect 0 0 200 250)
      [groupNode ''g2'' ''Group 2'' (rect 0 0 200 200)
         [box ''img1'' 0 0 200 150, tleaf ''t1'' ''Title'' 28 (rect 160 0 200 190)],
       tleaf ''t2'' ''Headline'' 30 (rect 210 0 200 250)]))) = Some Container \<and>
   detectCompositeWidget (map classifyLayer
      [box ''img2'' 0 210 200 360, tleaf ''t2'' ''Headline'' 30 (rect 370 0 200 400)]) =
     Some ImageBox \<and>
   widgetType (attrs (classifyLayer (groupNode ''g1'' ''Group 1'' (rect 0 0 200 400)
      [groupNode ''g2'' ''Group 2'' (rect 0 0 200 200)
         [box ''img1'' 0 0 200 150, tleaf ''t1'' ''Title'' 28 (rect 160 0 200 190)],
       box ''img2'' 0 210 200 360,
       tleaf ''t2'' ''Headline'' 30 (rect 370 0 200 400)]))) = Some Container"
proof -
  let ?card = "groupNode ''g2'' ''Group 2'' (rect 0 0 200 200)
         [box ''img1'' 0 0 200 150, tleaf ''t1'' ''Title'' 28 (rect 160 0 200 190)]"
  let ?img = "box ''img2'' 0 210 200 360"
  let ?h1 = "tleaf ''t2'' ''Headline'' 30 (rect 210 0 200 250)"
  let ?h2 = "tleaf ''t2'' ''Headline'' 30 (rect 370 0 200 400)"
  let ?g1 = "groupNode ''g1'' ''Group 1'' (rect 0 0 200 250) [?card, ?h1]"
  let ?g2 = "groupNode ''g1'' ''Group 1'' (rect 0 0 200 400) [?card, ?img, ?h2]"
  have c1: "\<exists>c \<in> set (children ?g1). widgetType (attrs (classifyLayer c)) \<in>
             {Some ImageBox, Some IconBox, Some IconList, Some Container, Some Button}"
    by (simp add: card_collapses)
  have c2: "\<exists>c \<in> set (children ?g2). widgetType (attrs (classifyLayer c)) \<in>
             {Some ImageBox, Some IconBox, Some IconList, Some Container, Some Button}"
    by (simp add: card_collapses)
  have d1: "determineWidgetType ?g1 = Container" by (rule dwt_examples)
  have d2: "determineWidgetType ?g2 = Container" by (rule dwt_examples)
  have r1: "widgetType (attrs (classifyLayer ?g1)) = Some Container"
    using composite_suppression [of ?g1] c1 d1 by blast
  have r2: "widgetType (attrs (classifyLayer ?g2)) = Some Container"
    using composite_suppression [of ?g2] c2 d2 by blast
  show ?thesis using card_collapses d1 r1 image_heading_pattern r2 by (intro conjI)
qed

section \<open>Properties of the proximity clustering\<close>

lemma addNeighbors_result:
  "\<exists>new. addNeighbors ns (v, c, q) = (v \<union> lid ` set new, c @ new, q @ new) \<and>
         set new \<subseteq> set ns \<and> lid ` set new \<inter> v = {} \<and> distinct (map lid new) \<and>
         (\<forall>n \<in> set ns. lid n \<in> v \<union> lid ` set new)"
proof (induction ns arbitrary: v c q)
  case Nil
  show ?case by (rule exI [of _ "[]"]) simp
next
  case (Cons n ns)
  show ?case
  proof (cases "lid n \<in> v")
    case True
    from Cons.IH [of v c q] obtain new where
      new: "addNeighbors ns (v, c, q) = (v \<union> lid ` set new, c @ new, q @ new)"
        "set new \<subseteq> set ns" "lid ` set new \<inter> v = {}" "distinct (map lid new)"
        "\<forall>n \<in> set ns. lid n \<in> v \<union> lid ` set new" by blast
    show ?thesis
      by (rule exI [of _ new]) (use True new in auto)
  next
    case False
    from Cons.IH [of "insert (lid n) v" "c @ [n]" "q @ [n]"] obtain new where
      new: "addNeighbors ns (insert (lid n) v, c @ [n], q @ [n]) =
              (insert (lid n) v \<union> lid ` set new, (c @ [n]) @ new, (q @ [n]) @ new)"
        "set new \<subseteq> set ns" "lid ` set new \<inter> insert (lid n) v = {}" "distinct (map lid new)"
        "\<forall>m \<in> set ns. lid m \<in> insert (lid n) v \<union> lid ` set new" by blast
    show ?thesis
      by (rule exI [of _ "n # new"]) (use False new in auto)
  qed
qed

lemma findNeighbors_hop:
  "x \<in> set allLayers \<Longrightarrow> y \<in> set (findNeighbors x allLayers t) \<Longrightarrow> (x, y) \<in> hop allLayers t"
  by (auto simp: findNeighbors_def hop_def split: if_splits)

lemma findNeighbors_subset: "set (findNeighbors x allLayers t) \<subseteq> set allLayers"
  by (auto simp: findNeighbors_def)

lemma bfs_inv_step:
  assumes inv: "bfs_inv allLayers t v0 s v c (cur # rest)"
    and st: "addNeighbors (findNeighbors cur allLayers t) (v, c, rest) = (v', c', q')"
  shows "bfs_inv allLayers t v0 s v' c' q'"
proof -
  let ?ns = "findNeighbors cur allLayers t"
  from addNeighbors_result [of ?ns v c rest] st obtain new where
    new: "v' = v \<union> lid ` set new" "c' = c @ new" "q' = rest @ new"
      "set new \<subseteq> set ?ns" "lid ` set new \<inter> v = {}" "distinct (map lid new)"
      "\<forall>n \<in> set ?ns. lid n \<in> v \<union> lid ` set new" by auto
  from inv have i:
    "set (cur # rest) \<subseteq> set c" "set c \<subseteq> set allLayers" "v = v0 \<union> lid ` set c"
    "distinct (map lid c)" "lid ` set c \<inter> v0 = {}" "s \<in> set c"
    "\<forall>x \<in> set c. (s, x) \<in> (hop allLayers t)\<^sup>*"
    "\<forall>x \<in> set c. x \<notin> set (cur # rest) \<longrightarrow> (\<forall>y \<in> set (findNeighbors x allLayers t). lid y \<in> v)"
    unfolding bfs_inv_def by blast+
  have cur: "cur \<in> set c" "cur \<in> set allLayers" using i(1,2) by auto
  have a1: "set q' \<subseteq> set c'" using new(2,3) i(1) by auto
  have a2: "set c' \<subseteq> set allLayers"
    using new(2,4) i(2) findNeighbors_subset [of cur allLayers t] by auto
  have a3: "v' = v0 \<union> lid ` set c'" using new(1,2) i(3) by auto
  have disj: "lid ` set c \<inter> lid ` set new = {}" using new(5) i(3) by auto
  have a4: "distinct (map lid c')"
    using new(2,6) i(4) disj by simp
  have a5: "lid ` set c' \<inter> v0 = {}" using new(2,5) i(3,5) by auto
  have a6: "s \<in> set c'" using new(2) i(6) by simp
  have a7: "\<forall>x \<in> set c'. (s, x) \<in> (hop allLayers t)\<^sup>*"
  proof
    fix x assume "x \<in> set c'"
    then consider "x \<in> set c" | "x \<in> set new" using new(2) by auto
    then show "(s, x) \<in> (hop allLayers t)\<^sup>*"
    proof cases
      case 1 then show ?thesis using i(7) by blast
    next
      case 2
      then have "(cur, x) \<in> hop allLayers t"
        using new(4) findNeighbors_hop [OF cur(2)] by blast
      moreover have "(s, cur) \<in> (hop allLayers t)\<^sup>*" using i(7) cur(1) by blast
      ultimately show ?thesis by (rule rtrancl_into_rtrancl [rotated])
    qed
  qed
  have a8: "\<forall>x \<in> set c'. x \<notin> set q' \<longrightarrow> (\<forall>y \<in> set (findNeighbors x allLayers t). lid y \<in> v')"
  proof (intro ballI impI)
    fix x y assume x: "x \<in> set c'" "x \<notin> set q'" and y: "y \<in> set (findNeighbors x allLayers t)"
    from x new(2,3) have xc: "x \<in> set c" "x \<notin> set rest" by auto
    show "lid y \<in> v'"
    proof (cases "x = cur")
      case True
      then show ?thesis using new(1,7) y by auto
    next
      case False
      then have "x \<notin> set (cur # rest)" using xc(2) by simp
      then have "lid y \<in> v" using i(8) xc(1) y by blast
      then show ?thesis using new(1) by simp
    qed
  qed
  show ?thesis unfolding bfs_inv_def using a1 a2 a3 a4 a5 a6 a7 a8 by blast
qed

lemma bfsLoop_inv:
  "bfs_inv allLayers t v0 s v c q \<Longrightarrow>
   \<exists>c'. bfsLoop allLayers t (v, c, q) = (v0 \<union> lid ` set c', c') \<and>
        bfs_inv allLayers t v0 s (v0 \<union> lid ` set c') c' []"
proof (induction allLayers t "(v, c, q)" arbitrary: v c q rule: bfsLoop.induct)
  case (1 allLayers threshold visited cluster queue)
  show ?case
  proof (cases queue)
    case Nil
    have "visited = v0 \<union> lid ` set cluster" using "1.prems" by (simp add: bfs_inv_def)
    then show ?thesis using Nil "1.prems" by auto
  next
    case (Cons cur rest)
    obtain v' c' q' where
      st: "addNeighbors (findNeighbors cur allLayers threshold) (visited, cluster, rest) = (v', c', q')"
      by (cases "addNeighbors (findNeighbors cur allLayers threshold) (visited, cluster, rest)") auto
    have inv': "bfs_inv allLayers threshold v0 s v' c' q'"
      using bfs_inv_step [OF _ st] "1.prems" Cons by simp
    from "1.hyps" [OF Cons st inv']
    show ?thesis using Cons st by simp
  qed
qed

lemma getMinDistance_sym: "getMinDistance a b = getMinDistance b a"
  by (simp add: getMinDistance_def max.commute min.commute)

lemma sym_hop: "sym (hop allLayers t)"
  by (auto simp: sym_def hop_def getMinDistance_sym)

lemma hop_rtrancl_sym: "(x, y) \<in> (hop allLayers t)\<^sup>* \<Longrightarrow> (y, x) \<in> (hop allLayers t)\<^sup>*"
  using sym_rtrancl [OF sym_hop, of allLayers t] unfolding sym_def by blast

lemma findNeighbors_sym:
  "x \<in> set allLayers \<Longrightarrow> y \<in> set (findNeighbors x allLayers t) \<Longrightarrow>
   x \<in> set (findNeighbors y allLayers t)"
  by (auto simp: findNeighbors_def getMinDistance_sym split: if_splits)

lemma lid_inj:
  "distinct (map lid allLayers) \<Longrightarrow> x \<in> set allLayers \<Longrightarrow> y \<in> set allLayers \<Longrightarrow>
   lid x = lid y \<Longrightarrow> x = y"
  by (auto simp: distinct_map dest: inj_onD)

lemma expandCluster_inv:
  assumes "s \<in> set allLayers" "lid s \<notin> v0"
  shows "\<exists>c'. expandCluster s allLayers t v0 = (v0 \<union> lid ` set c', c') \<and>
              bfs_inv allLayers t v0 s (v0 \<union> lid ` set c') c' []"
proof -
  have "bfs_inv allLayers t v0 s (insert (lid s) v0) [s] [s]"
    using assms by (simp add: bfs_inv_def)
  from bfsLoop_inv [OF this] show ?thesis by (simp add: expandCluster_def)
qed

lemma expandCluster_ok:
  assumes dist: "distinct (map lid allLayers)"
    and U: "U \<subseteq> set allLayers" "\<forall>x \<in> U. set (findNeighbors x allLayers t) \<subseteq> U"
    and s: "s \<in> set allLayers" "lid s \<notin> lid ` U"
  shows "\<exists>c. expandCluster s allLayers t (lid ` U) = (lid ` (U \<union> set c), c) \<and>
             s \<in> set c \<and> set c \<subseteq> set allLayers \<and> set c \<inter> U = {} \<and> distinct c \<and>
             cluster_ok allLayers t c \<and>
             (\<forall>x \<in> U \<union> set c. set (findNeighbors x allLayers t) \<subseteq> U \<union> set c)"
proof -
  from expandCluster_inv [OF s] obtain c where
    ex: "expandCluster s allLayers t (lid ` U) = (lid ` U \<union> lid ` set c, c)"
    and inv: "bfs_inv allLayers t (lid ` U) s (lid ` U \<union> lid ` set c) c []" by blast
  from inv have i:
    "set c \<subseteq> set allLayers" "distinct (map lid c)" "lid ` set c \<inter> lid ` U = {}" "s \<in> set c"
    "\<forall>x \<in> set c. (s, x) \<in> (hop allLayers t)\<^sup>*"
    "\<forall>x \<in> set c. \<forall>y \<in> set (findNeighbors x allLayers t). lid y \<in> lid ` U \<union> lid ` set c"
    unfolding bfs_inv_def by auto
  have disj: "set c \<inter> U = {}" using i(3) by auto
  have dc: "distinct c" using i(2) by (simp add: distinct_map)
  have closed_c: "\<forall>x \<in> set c. set (findNeighbors x allLayers t) \<subseteq> set c"
  proof (intro ballI subsetI)
    fix x y assume x: "x \<in> set c" and y: "y \<in> set (findNeighbors x allLayers t)"
    have xa: "x \<in> set allLayers" using x i(1) by auto
    have ya: "y \<in> set allLayers" using y findNeighbors_subset by blast
    from i(6) x y have "lid y \<in> lid ` U \<union> lid ` set c" by blast
    then consider u where "u \<in> U" "lid u = lid y" | z where "z \<in> set c" "lid z = lid y"
      by auto
    then show "y \<in> set c"
    proof cases
      case 1
      have "u \<in> set allLayers" using 1(1) U(1) by blast
      from lid_inj [OF dist this ya 1(2)] 1(1) have yU: "y \<in> U" by simp
      have "x \<in> set (findNeighbors y allLayers t)" by (rule findNeighbors_sym [OF xa y])
      then have "x \<in> U" using yU U(2) by blast
      then show ?thesis using disj x by blast
    next
      case 2
      have "z \<in> set allLayers" using 2(1) i(1) by blast
      from lid_inj [OF dist this ya 2(2)] 2(1) show ?thesis by simp
    qed
  qed
  have conn: "\<forall>x \<in> set c. \<forall>y \<in> set c. (x, y) \<in> (hop allLayers t)\<^sup>*"
  proof (intro ballI)
    fix x y assume "x \<in> set c" "y \<in> set c"
    then have "(s, x) \<in> (hop allLayers t)\<^sup>*" "(s, y) \<in> (hop allLayers t)\<^sup>*"
      using i(5) by blast+
    then have "(x, s) \<in> (hop allLayers t)\<^sup>*" "(s, y) \<in> (hop allLayers t)\<^sup>*"
      by (simp_all add: hop_rtrancl_sym)
    then show "(x, y) \<in> (hop allLayers t)\<^sup>*" by (rule rtrancl_trans)
  qed
  have ok: "cluster_ok allLayers t c"
    unfolding cluster_ok_def using i(4) closed_c conn by auto
  have closedU: "\<forall>x \<in> U \<union> set c. set (findNeighbors x allLayers t) \<subseteq> U \<union> set c"
    using U(2) closed_c by blast
  have "lid ` U \<union> lid ` set c = lid ` (U \<union> set c)" by (rule image_Un [symmetric])
  with ex have ex': "expandCluster s allLayers t (lid ` U) = (lid ` (U \<union> set c), c)" by simp
  show ?thesis
    by (rule exI [of _ c]) (intro conjI ex' i(4) i(1) disj dc ok closedU)
qed

lemma clusterLoop_props:
  assumes dist: "distinct (map lid allLayers)"
  shows "U \<subseteq> set allLayers \<Longrightarrow> \<forall>x \<in> U. set (findNeighbors x allLayers t) \<subseteq> U \<Longrightarrow>
         set rest \<subseteq> set allLayers \<Longrightarrow>
         distinct (concat (clusterLoop allLayers t rest (lid ` U))) \<and>
         set (concat (clusterLoop allLayers t rest (lid ` U))) \<subseteq> set allLayers - U \<and>
         set rest \<subseteq> U \<union> set (concat (clusterLoop allLayers t rest (lid ` U))) \<and>
         (\<forall>c \<in> set (clusterLoop allLayers t rest (lid ` U)). cluster_ok allLayers t c)"
proof (induction rest arbitrary: U)
  case Nil
  then show ?case by simp
next
  case (Cons l rest)
  have la: "l \<in> set allLayers" and ra: "set rest \<subseteq> set allLayers"
    using Cons.prems(3) by auto
  show ?case
  proof (cases "lid l \<in> lid ` U")
    case True
    then obtain u where "u \<in> U" "lid u = lid l" by auto
    then have "l \<in> U" using lid_inj [OF dist _ la] Cons.prems(1) by blast
    then show ?thesis
      using True Cons.IH [OF Cons.prems(1,2) ra] by auto
  next
    case False
    from expandCluster_ok [OF dist Cons.prems(1,2) la False] obtain c where
      c: "expandCluster l allLayers t (lid ` U) = (lid ` (U \<union> set c), c)"
        "l \<in> set c" "set c \<subseteq> set allLayers" "set c \<inter> U = {}" "distinct c"
        "cluster_ok allLayers t c"
        "\<forall>x \<in> U \<union> set c. set (findNeighbors x allLayers t) \<subseteq> U \<union> set c" by blast
    have U': "U \<union> set c \<subseteq> set allLayers" using Cons.prems(1) c(3) by auto
    note ih = Cons.IH [OF U' c(7) ra]
    let ?cs = "clusterLoop allLayers t rest (lid ` (U \<union> set c))"
    have eq: "clusterLoop allLayers t (l # rest) (lid ` U) = c # ?cs"
      using False c(1,2) by auto
    have d: "distinct (concat (c # ?cs))"
      using ih c(5) by auto
    have s1: "set (concat (c # ?cs)) \<subseteq> set allLayers - U"
      using ih c(3,4) by auto
    have s2: "set (l # rest) \<subseteq> U \<union> set (concat (c # ?cs))"
      using ih c(2) by auto
    have ok: "\<forall>c' \<in> set (c # ?cs). cluster_ok allLayers t c'"
      using ih c(6) by auto
    show ?thesis unfolding eq using d s1 s2 ok by blast
  qed
qed

lemma findNeighbors_single: "findNeighbors x [x] t = []"
  by (simp add: findNeighbors_def)

lemma clusterByProximity_props:
  assumes dist: "distinct (map lid layers)"
  shows "distinct (concat (clusterByProximity layers t)) \<and>
         set (concat (clusterByProximity layers t)) = set layers \<and>
         (\<forall>c \<in> set (clusterByProximity layers t). cluster_ok layers t c)"
proof -
  consider "layers = []" | "length layers = 1" | "layers \<noteq> []" "length layers \<noteq> 1" by blast
  then show ?thesis
  proof cases
    case 1
    then show ?thesis by (simp add: clusterByProximity_def)
  next
    case 2
    then obtain x where x: "layers = [x]" by (cases layers) auto
    then show ?thesis
      by (simp add: clusterByProximity_def cluster_ok_def findNeighbors_single)
  next
    case 3
    let ?cs = "clusterLoop layers t layers {}"
    have e: "lid ` ({} :: layer set) = {}" by simp
    have e1: "({} :: layer set) \<subseteq> set layers" by simp
    have e2: "\<forall>x \<in> ({} :: layer set). set (findNeighbors x layers t) \<subseteq> {}" by simp
    have e3: "set layers \<subseteq> set layers" by simp
    note p = clusterLoop_props [OF dist e1 e2 e3, unfolded e]
    have q: "clusterByProximity layers t = ?cs"
      using 3 by (simp add: clusterByProximity_def)
    have p1: "distinct (concat ?cs)" using p by (rule conjunct1)
    have p2: "set (concat ?cs) \<subseteq> set layers - {}" using p by simp
    have p3: "set layers \<subseteq> {} \<union> set (concat ?cs)" using p by simp
    have p4: "\<forall>c \<in> set ?cs. cluster_ok layers t c" using p by simp
    have p5: "set (concat ?cs) = set layers"
    proof (rule subset_antisym)
      show "set (concat ?cs) \<subseteq> set layers" using p2 by simp
      show "set layers \<subseteq> set (concat ?cs)" using p3 by simp
    qed
    show ?thesis unfolding q using p1 p5 p4 by (intro conjI)
  qed
qed

lemma getMinDistance_le_iff:
  "getMinDistance a b \<le> t \<longleftrightarrow>
     0 \<le> t \<and>
     (max 0 (max (left a) (left b) - min (right a) (right b)))\<^sup>2 +
     (max 0 (max (top_b a) (top_b b) - min (bottom a) (bottom b)))\<^sup>2 \<le> t\<^sup>2"
proof -
  let ?h = "max 0 (max (left a) (left b) - min (right a) (right b))"
  let ?v = "max 0 (max (top_b a) (top_b b) - min (bottom a) (bottom b))"
  have d: "getMinDistance a b = sqrt (?h\<^sup>2 + ?v\<^sup>2)"
    by (simp add: getMinDistance_def Let_def power2_eq_square)
  have nn: "0 \<le> ?h\<^sup>2 + ?v\<^sup>2" by simp
  show ?thesis
  proof (cases "0 \<le> t")
    case True
    then have "sqrt (?h\<^sup>2 + ?v\<^sup>2) \<le> t \<longleftrightarrow> ?h\<^sup>2 + ?v\<^sup>2 \<le> t\<^sup>2"
      by (metis real_sqrt_le_iff real_sqrt_abs abs_of_nonneg)
    with True d show ?thesis by simp
  next
    case False
    have "0 \<le> sqrt (?h\<^sup>2 + ?v\<^sup>2)" using nn by (rule real_sqrt_ge_zero)
    with False have "\<not> sqrt (?h\<^sup>2 + ?v\<^sup>2) \<le> t" by linarith
    with False d show ?thesis by simp
  qed
qed

lemma box_neq: "l \<noteq> l' \<Longrightarrow> box i t l r b \<noteq> box i' t' l' r' b'"
  "i \<noteq> i' \<Longrightarrow> box i t l r b \<noteq> box i' t' l' r' b'"
  by (auto simp: box_def leaf_def rect_def)

lemma gmd_box:
  "getMinDistance (lbounds (box i t l r b)) (lbounds (box i' t' l' r' b')) \<le> th \<longleftrightarrow>
     0 \<le> th \<and> (max 0 (max l l' - min r r'))\<^sup>2 + (max 0 (max t t' - min b b'))\<^sup>2 \<le> th\<^sup>2"
  by (simp add: getMinDistance_le_iff)

lemma cluster_closed_rtrancl:
  assumes ok: "cluster_ok layers t c" and sub: "set c \<subseteq> set layers"
    and dist: "distinct (map lid layers)"
    and a: "a \<in> set c" and ch: "(a, b) \<in> (hop layers t)\<^sup>*"
  shows "b \<in> set c"
  using ch
proof (induction rule: rtrancl_induct)
  case base
  show ?case by (rule a)
next
  case (step y z)
  have yl: "y \<in> set layers" "z \<in> set layers"
    and gap: "getMinDistance (lbounds y) (lbounds z) \<le> t"
    using step.hyps(2) by (auto simp: hop_def)
  show ?case
  proof (cases "lid z = lid y")
    case True
    then have "z = y" using lid_inj [OF dist yl(2) yl(1)] by simp
    then show ?thesis using step.IH by simp
  next
    case False
    then have "z \<in> set (findNeighbors y layers t)"
      using yl(2) gap by (simp add: findNeighbors_def)
    then show ?thesis using ok step.IH by (auto simp: cluster_ok_def)
  qed
qed

lemma no_chain_two:
  assumes "\<not> getMinDistance (lbounds a) (lbounds b) \<le> t" "a \<noteq> b"
  shows "(a, b) \<notin> (hop [a, b] t)\<^sup>*"
proof
  assume "(a, b) \<in> (hop [a, b] t)\<^sup>*"
  moreover have "hop [a, b] t \<subseteq> Id"
    using assms by (auto simp: hop_def getMinDistance_sym)
  ultimately have "(a, b) \<in> Id\<^sup>*" using rtrancl_mono by blast
  then show False using assms(2) by simp
qed

text \<open>
  Claim C1, as stated: for any input layer list the clusters of \<open>clusterByProximity\<close> are
  pairwise disjoint and their union is the input. The visited set and the neighbour test
  go by the \<open>id\<close> of a layer, so the claim fails for a list in which two layers carry the
  same id: the second layer is skipped as visited and is in no cluster.
\<close>

theorem clusterByProximity_partition_counterexample:
  "clusterByProximity [box ''x'' 0 0 10 10, box ''x'' 0 100 110 10] 20 =
     [[box ''x'' 0 0 10 10]] \<and>
   \<Union> (set ` set (clusterByProximity [box ''x'' 0 0 10 10, box ''x'' 0 100 110 10] 20)) \<noteq>
     set [box ''x'' 0 0 10 10, box ''x'' 0 100 110 10]"
  by (simp add: clusterByProximity_def expandCluster_def findNeighbors_def box_neq)

text \<open>
  Claim C1, amended: for any input layer list whose ids are pairwise distinct, the clusters
  of \<open>clusterByProximity\<close> are pairwise disjoint, their union is the set of input layers,
  and each layer belongs to exactly one cluster; no cluster is empty or repeats a layer.
\<close>

theorem clusterByProximity_partition:
  assumes dist: "distinct (map lid layers)"
  shows "\<Union> (set ` set (clusterByProximity layers t)) = set layers \<and>
         (\<forall>c \<in> set (clusterByProximity layers t). \<forall>d \<in> set (clusterByProximity layers t).
            c \<noteq> d \<longrightarrow> set c \<inter> set d = {}) \<and>
         (\<forall>l \<in> set layers. \<exists>!c. c \<in> set (clusterByProximity layers t) \<and> l \<in> set c) \<and>
         distinct (clusterByProximity layers t) \<and>
         (\<forall>c \<in> set (clusterByProximity layers t). c \<noteq> [] \<and> distinct c)"
proof -
  let ?cs = "clusterByProximity layers t"
  from clusterByProximity_props [OF dist, of t] have
    d: "distinct (concat ?cs)" and s: "set (concat ?cs) = set layers"
    and ok: "\<forall>c \<in> set ?cs. cluster_ok layers t c" by blast+
  have ne: "\<forall>c \<in> set ?cs. c \<noteq> []" using ok by (simp add: cluster_ok_def)
  then have "[] \<notin> set ?cs" by blast
  then have rm: "removeAll [] ?cs = ?cs" by (rule removeAll_id)
  from d have dci: "distinct ?cs \<and> (\<forall>ys \<in> set ?cs. distinct ys) \<and>
      (\<forall>ys zs. ys \<in> set ?cs \<and> zs \<in> set ?cs \<and> ys \<noteq> zs \<longrightarrow> set ys \<inter> set zs = {})"
    unfolding distinct_concat_iff rm by blast
  have dc: "distinct ?cs" using dci by (rule conjunct1)
  have dc2: "\<forall>c \<in> set ?cs. distinct c" using dci by simp
  have disj: "\<forall>c \<in> set ?cs. \<forall>d \<in> set ?cs. c \<noteq> d \<longrightarrow> set c \<inter> set d = {}"
    using dci by simp
  have un: "\<Union> (set ` set ?cs) = set layers" using s by simp
  have uniq: "\<forall>l \<in> set layers. \<exists>!c. c \<in> set ?cs \<and> l \<in> set c"
  proof
    fix l assume "l \<in> set layers"
    then obtain c where c: "c \<in> set ?cs" "l \<in> set c" using un by blast
    show "\<exists>!c. c \<in> set ?cs \<and> l \<in> set c"
    proof (rule ex1I [of _ c])
      show "c \<in> set ?cs \<and> l \<in> set c" using c by simp
    next
      fix d assume "d \<in> set ?cs \<and> l \<in> set d"
      then show "d = c" using c disj by blast
    qed
  qed
  have ned: "\<forall>c \<in> set ?cs. c \<noteq> [] \<and> distinct c" using ne dc2 by simp
  show ?thesis using un disj uniq dc ned by (intro conjI)
qed

theorem clusterByProximity_partition_witness:
  "\<Union> (set ` set (clusterByProximity [box ''a'' 0 0 10 10, box ''b'' 0 15 25 10,
                                       box ''c'' 0 100 110 10] 10)) =
     set [box ''a'' 0 0 10 10, box ''b'' 0 15 25 10, box ''c'' 0 100 110 10] \<and>
   clusterByProximity [box ''a'' 0 0 10 10, box ''b'' 0 15 25 10, box ''c'' 0 100 110 10] 10 =
     [[box ''a'' 0 0 10 10, box ''b'' 0 15 25 10], [box ''c'' 0 100 110 10]] \<and>
   distinct (clusterByProximity [box ''a'' 0 0 10 10, box ''b'' 0 15 25 10,
                                 box ''c'' 0 100 110 10] 10)"
  using clusterByProximity_partition
          [of "[box ''a'' 0 0 10 10, box ''b'' 0 15 25 10, box ''c'' 0 100 110 10]" 10]
  by (simp add: clusterByProximity_def expandCluster_def findNeighbors_def gmd_box)

text \<open>
  Claim C2, as stated: any two layers of the input whose gap is at most the threshold end
  up in the same cluster. It fails for two layers with the same id: \<open>findNeighbors\<close>
  never links layers of equal id, and the second one is in no cluster.
\<close>

theorem clusterByProximity_connectivity_counterexample:
  "getMinDistance (lbounds (box ''x'' 0 0 10 10)) (lbounds (box ''x'' 0 15 25 10)) \<le> 10 \<and>
   clusterByProximity [box ''x'' 0 0 10 10, box ''x'' 0 15 25 10] 10 = [[box ''x'' 0 0 10 10]] \<and>
   \<not> (\<exists>c \<in> set (clusterByProximity [box ''x'' 0 0 10 10, box ''x'' 0 15 25 10] 10).
         box ''x'' 0 0 10 10 \<in> set c \<and> box ''x'' 0 15 25 10 \<in> set c)"
  by (simp add: clusterByProximity_def expandCluster_def findNeighbors_def gmd_box box_neq)

text \<open>
  Claim C2, amended: for an input whose ids are pairwise distinct, two layers whose
  Euclidean gap is at most the threshold are in the same cluster, and two layers with no
  chain of input layers connecting them, every hop with gap at most the threshold, are in
  no common cluster; two layers share a cluster exactly when such a chain exists. The
  witness has layers spanning x from 0 to 10 and from 15 to 25: one cluster at threshold
  10, two at threshold 2.
\<close>

theorem clusterByProximity_connectivity:
  assumes dist: "distinct (map lid layers)" and a: "a \<in> set layers" and b: "b \<in> set layers"
  shows "(getMinDistance (lbounds a) (lbounds b) \<le> t \<longrightarrow>
            (\<exists>c \<in> set (clusterByProximity layers t). a \<in> set c \<and> b \<in> set c)) \<and>
         ((a, b) \<notin> (hop layers t)\<^sup>* \<longrightarrow>
            \<not> (\<exists>c \<in> set (clusterByProximity layers t). a \<in> set c \<and> b \<in> set c)) \<and>
         ((\<exists>c \<in> set (clusterByProximity layers t). a \<in> set c \<and> b \<in> set c) \<longleftrightarrow>
            (a, b) \<in> (hop layers t)\<^sup>*)"
proof -
  let ?cs = "clusterByProximity layers t"
  from clusterByProximity_props [OF dist, of t] have
    s: "set (concat ?cs) = set layers"
    and ok: "\<forall>c \<in> set ?cs. cluster_ok layers t c" by blast+
  have sub: "\<forall>c \<in> set ?cs. set c \<subseteq> set layers" using s by auto
  have iff: "(\<exists>c \<in> set ?cs. a \<in> set c \<and> b \<in> set c) \<longleftrightarrow> (a, b) \<in> (hop layers t)\<^sup>*"
  proof
    assume "\<exists>c \<in> set ?cs. a \<in> set c \<and> b \<in> set c"
    then show "(a, b) \<in> (hop layers t)\<^sup>*" using ok by (auto simp: cluster_ok_def)
  next
    assume ch: "(a, b) \<in> (hop layers t)\<^sup>*"
    from a s obtain c where c: "c \<in> set ?cs" "a \<in> set c" by auto
    have "b \<in> set c"
      using cluster_closed_rtrancl [OF _ _ dist c(2) ch] ok sub c(1) by blast
    with c show "\<exists>c \<in> set ?cs. a \<in> set c \<and> b \<in> set c" by blast
  qed
  have "getMinDistance (lbounds a) (lbounds b) \<le> t \<longrightarrow> (a, b) \<in> (hop layers t)\<^sup>*"
    using a b by (auto simp: hop_def)
  with iff show ?thesis by blast
qed

theorem clusterByProximity_connectivity_witness:
  "(\<exists>c \<in> set (clusterByProximity [box ''a'' 0 0 10 10, box ''b'' 0 15 25 10] 10).
      box ''a'' 0 0 10 10 \<in> set c \<and> box ''b'' 0 15 25 10 \<in> set c) \<and>
   \<not> (\<exists>c \<in> set (clusterByProximity [box ''a'' 0 0 10 10, box ''b'' 0 15 25 10] 2).
      box ''a'' 0 0 10 10 \<in> set c \<and> box ''b'' 0 15 25 10 \<in> set c)"
proof -
  let ?a = "box ''a'' 0 0 10 10" and ?b = "box ''b'' 0 15 25 10"
  have d: "distinct (map lid [?a, ?b])" by simp
  have g10: "getMinDistance (lbounds ?a) (lbounds ?b) \<le> 10" by (simp add: gmd_box)
  have g2: "\<not> getMinDistance (lbounds ?a) (lbounds ?b) \<le> 2" by (simp add: gmd_box)
  have ne: "?a \<noteq> ?b" by (simp add: box_neq)
  have nc: "(?a, ?b) \<notin> (hop [?a, ?b] 2)\<^sup>*" by (rule no_chain_two [OF g2 ne])
  show ?thesis
    using clusterByProximity_connectivity [OF d, of ?a ?b 10]
      clusterByProximity_connectivity [OF d, of ?a ?b 2] g10 nc
    by simp
qed

section \<open>Properties of the boundary filter\<close>

lemma jsnum_pos_iff: "(0::jsnum) < x \<longleftrightarrow> x = PosInf \<or> (\<exists>w. 0 < w \<and> x = Fin w)"
  by (cases x) (simp_all add: less_jsnum_def zero_jsnum_def)

text \<open>
  Claim C8, as stated: a layer carrying a non-finite bounds value is rejected at the
  pipeline boundary. The boundary of the orchestrator is \<open>flattenLayers\<close> followed by
  \<open>filterValidLayers\<close>; neither raises an error, and a leaf whose right edge and width
  are \<open>Infinity\<close> passes both and is handed to the clustering.
\<close>

theorem filterValidLayers_nonfinite_counterexample:
  "\<not> isFinite (right (lbounds (leaf ''a'' ''a'' Image
        \<lparr>top_b = Fin 0, left = Fin 0, right = PosInf, bottom = Fin 10,
         width = PosInf, height = Fin 10\<rparr> None))) \<and>
   filterValidLayers (flattenLayers [leaf ''a'' ''a'' Image
        \<lparr>top_b = Fin 0, left = Fin 0, right = PosInf, bottom = Fin 10,
         width = PosInf, height = Fin 10\<rparr> None]) =
     [leaf ''a'' ''a'' Image
        \<lparr>top_b = Fin 0, left = Fin 0, right = PosInf, bottom = Fin 10,
         width = PosInf, height = Fin 10\<rparr> None]"
  by (simp add: filterValidLayers_def flattenLayers_def leaf_def isFinite_def
      less_jsnum_def zero_jsnum_def)

text \<open>
  Claim C8, amended: the boundary filter keeps a layer exactly when it is visible and its
  width and height compare greater than 0. So a layer whose width or height is \<open>NaN\<close> or
  \<open>-Infinity\<close> is dropped without an error, as a zero-area layer is, and every other layer
  with a non-finite bounds value (an infinite width or height, or any non-finite top,
  left, right or bottom) is passed on.
\<close>

theorem filterValidLayers_nonfinite:
  "l \<in> set (filterValidLayers ls) \<longleftrightarrow>
     l \<in> set ls \<and> visible (attrs l) \<and>
     (width (lbounds l) = PosInf \<or> (\<exists>w. 0 < w \<and> width (lbounds l) = Fin w)) \<and>
     (height (lbounds l) = PosInf \<or> (\<exists>h. 0 < h \<and> height (lbounds l) = Fin h))"
  by (simp add: filterValidLayers_def jsnum_pos_iff)

theorem filterValidLayers_nonfinite_witness:
  "leaf ''n'' ''n'' Image
        \<lparr>top_b = Fin 0, left = Fin 0, right = NaN, bottom = Fin 10,
         width = NaN, height = Fin 10\<rparr> None
     \<notin> set (filterValidLayers [leaf ''n'' ''n'' Image
        \<lparr>top_b = Fin 0, left = Fin 0, right = NaN, bottom = Fin 10,
         width = NaN, height = Fin 10\<rparr> None]) \<and>
   leaf ''t'' ''t'' Image
        \<lparr>top_b = NaN, left = Fin 0, right = Fin 10, bottom = PosInf,
         width = Fin 10, height = PosInf\<rparr> None
     \<in> set (filterValidLayers [leaf ''t'' ''t'' Image
        \<lparr>top_b = NaN, left = Fin 0, right = Fin 10, bottom = PosInf,
         width = Fin 10, height = PosInf\<rparr> None])"
  using filterValidLayers_nonfinite [of "leaf ''n'' ''n'' Image
        \<lparr>top_b = Fin 0, left = Fin 0, right = NaN, bottom = Fin 10,
         width = NaN, height = Fin 10\<rparr> None" "[leaf ''n'' ''n'' Image
        \<lparr>top_b = Fin 0, left = Fin 0, right = NaN, bottom = Fin 10,
         width = NaN, height = Fin 10\<rparr> None]"]
    filterValidLayers_nonfinite [of "leaf ''t'' ''t'' Image
        \<lparr>top_b = NaN, left = Fin 0, right = Fin 10, bottom = PosInf,
         width = Fin 10, height = PosInf\<rparr> None" "[leaf ''t'' ''t'' Image
        \<lparr>top_b = NaN, left = Fin 0, right = Fin 10, bottom = PosInf,
         width = Fin 10, height = PosInf\<rparr> None]"]
  by (simp add: leaf_def)

section \<open>Frame property of the core over the object store\<close>

subsection \<open>Stores\<close>

lemma unchanged_refl: "unchanged s s"
  by (simp add: unchanged_def)

lemma unchanged_length: "unchanged s t \<Longrightarrow> length s \<le> length t"
proof -
  assume "unchanged s t"
  then have "length (take (length s) t) = length s"
    by (simp add: unchanged_def)
  then show ?thesis by simp
qed

lemma unchanged_trans:
  assumes "unchanged s t" "unchanged t u"
  shows "unchanged s u"
proof -
  have le: "length s \<le> length t" using assms(1) by (rule unchanged_length)
  have "take (length s) u = take (length s) (take (length t) u)"
    using le by (simp add: min_def)
  also have "\<dots> = take (length s) t" using assms(2) by (simp add: unchanged_def)
  also have "\<dots> = s" using assms(1) by (simp add: unchanged_def)
  finally show ?thesis by (simp add: unchanged_def)
qed

lemma unchanged_nth: "unchanged s t \<Longrightarrow> r < length s \<Longrightarrow> t ! r = s ! r"
proof -
  assume a: "unchanged s t" and b: "r < length s"
  have "s ! r = take (length s) t ! r" using a by (simp add: unchanged_def)
  also have "\<dots> = t ! r" using b by simp
  finally show ?thesis by simp
qed

lemma length_writeField [simp]: "length (writeField s r f) = length s"
  by (simp add: writeField_def)

lemma nth_writeField_other: "q \<noteq> r \<Longrightarrow> writeField s r f ! q = s ! q"
  by (simp add: writeField_def)

lemma nth_writeField_same: "r < length s \<Longrightarrow> writeField s r f ! r = f (s ! r)"
  by (simp add: writeField_def)

lemma unchanged_write: "unchanged s t \<Longrightarrow> length s \<le> r \<Longrightarrow> unchanged s (writeField t r f)"
  by (simp add: unchanged_def writeField_def)

lemma unchanged_append: "unchanged s (s @ xs)"
  by (simp add: unchanged_def)

lemma alloc_eq: "alloc s a = (s1, n) \<longleftrightarrow> s1 = s @ [a] \<and> n = length s"
  by (auto simp: alloc_def)

lemma mapS_frame:
  assumes step: "\<And>x u u' y. x \<in> set xs \<Longrightarrow> Pre u x \<Longrightarrow> f u x = (u', y) \<Longrightarrow> unchanged u u' \<and> Q u u' x y"
    and pre_mono: "\<And>a b x. Pre a x \<Longrightarrow> unchanged a b \<Longrightarrow> Pre b x"
    and q_mono: "\<And>a b a' b' x y. Q a b x y \<Longrightarrow> unchanged a' a \<Longrightarrow> unchanged b b' \<Longrightarrow> Q a' b' x y"
    and pre: "\<forall>x \<in> set xs. Pre s x"
    and run: "mapS f s xs = (s', ys)"
  shows "unchanged s s' \<and> list_all2 (Q s s') xs ys"
  using step pre run
proof (induction xs arbitrary: s s' ys)
  case Nil
  then show ?case by (simp add: unchanged_refl)
next
  case (Cons x xs)
  obtain s1 y where f: "f s x = (s1, y)" by (cases "f s x")
  obtain s2 ys' where m: "mapS f s1 xs = (s2, ys')" by (cases "mapS f s1 xs")
  have res: "s' = s2" "ys = y # ys'"
    using Cons.prems(3) f m by simp_all
  have px: "Pre s x" using Cons.prems(2) by simp
  have h: "unchanged s s1 \<and> Q s s1 x y"
    using Cons.prems(1) [of x s s1 y] px f by simp
  have pre1: "\<forall>x \<in> set xs. Pre s1 x"
    using Cons.prems(2) h pre_mono by auto
  have ih: "unchanged s1 s2 \<and> list_all2 (Q s1 s2) xs ys'"
  proof (rule Cons.IH [OF _ pre1 m])
    fix x' u u' y'
    assume "x' \<in> set xs" "Pre u x'" "f u x' = (u', y')"
    then show "unchanged u u' \<and> Q u u' x' y'"
      using Cons.prems(1) [of x' u u' y'] by simp
  qed
  have u: "unchanged s s2" using h ih unchanged_trans by blast
  have q1: "Q s s2 x y"
    using q_mono [of s s1 x y s s2] h ih unchanged_refl by blast
  have q2: "list_all2 (Q s s2) xs ys'"
  proof (rule list_all2_mono [OF conjunct2 [OF ih]])
    fix a b assume "Q s1 s2 a b"
    then show "Q s s2 a b"
      using q_mono [of s1 s2 a b s s2] h unchanged_refl by blast
  qed
  show ?case using u q1 q2 res by simp
qed

lemma subnodes_refs: "m \<in> set (subnodes t) \<Longrightarrow> set (refs m) \<subseteq> set (refs t)"
proof (induction t)
  case (ONode r ks)
  then show ?case by (cases "m = ONode r ks") auto
qed

lemma ref_in_refs: "ref t \<in> set (refs t)"
  by (cases t) simp

lemma subnodes_ref: "m \<in> set (subnodes t) \<Longrightarrow> ref m \<in> set (refs t)"
  using subnodes_refs [of m t] ref_in_refs [of m] by blast

lemma kid_refs: "c \<in> set (kids m) \<Longrightarrow> set (refs c) \<subseteq> set (refs m)"
  by (cases m) auto

lemma subnodes_kid_ref: "m \<in> set (subnodes t) \<Longrightarrow> c \<in> set (kids m) \<Longrightarrow> ref c \<in> set (refs t)"
  using subnodes_refs [of m t] kid_refs [of c m] ref_in_refs [of c] by blast

subsection \<open>Classification creates what it assigns\<close>

text \<open>
  \<open>classifyLayer\<close> assigns to the copy it has made and to nothing else. Its result keeps
  the objects of the store as they were; the root of the result is new, every other
  object of the result is new or an object of the input tree, and a node is marked
  composite only after its children have been classified, so that these are copies.
\<close>

lemma decoded_mono: "decoded a t \<Longrightarrow> unchanged a b \<Longrightarrow> decoded b t"
proof -
  assume d: "decoded a t" and u: "unchanged a b"
  have "r < length b \<and> \<not> isComposite (b ! r)" if "r \<in> set (refs t)" for r
  proof -
    have r: "r < length a" "\<not> isComposite (a ! r)"
      using d that by (auto simp: decoded_def list_all_iff)
    have "b ! r = a ! r" using u r(1) by (rule unchanged_nth)
    then show ?thesis using r unchanged_length [OF u] by simp
  qed
  then show ?thesis by (simp add: decoded_def list_all_iff)
qed

lemma decoded_kid: "decoded s (ONode r ks) \<Longrightarrow> k \<in> set ks \<Longrightarrow> decoded s k"
  by (auto simp: decoded_def list_all_iff)

lemma compositeKidsNew_mono:
  assumes c: "compositeKidsNew k b y" and le: "k' \<le> k" and u: "unchanged b b'"
    and rs: "\<forall>r \<in> set (refs y). r < length b"
  shows "compositeKidsNew k' b' y"
proof -
  have "list_all (\<lambda>c. k' \<le> ref c) (kids m)"
    if m: "m \<in> set (subnodes y)" and i: "isComposite (b' ! ref m)" for m
  proof -
    have "ref m < length b" using rs subnodes_ref [OF m] by blast
    then have "b' ! ref m = b ! ref m" using u unchanged_nth by blast
    then have "list_all (\<lambda>c. k \<le> ref c) (kids m)"
      using c m i by (auto simp: compositeKidsNew_def list_all_iff)
    then show ?thesis using le by (auto simp: list_all_iff)
  qed
  then show ?thesis by (simp add: compositeKidsNew_def list_all_iff)
qed

lemma classified_mono:
  assumes q: "classified a b x y" and ua: "unchanged a' a" and ub: "unchanged b b'"
  shows "classified a' b' x y"
proof -
  have la: "length a' \<le> length a" using ua by (rule unchanged_length)
  have lb: "length b \<le> length b'" using ub by (rule unchanged_length)
  have rs: "\<forall>r \<in> set (refs y). r < length b"
    using q by (auto simp: classified_def)
  have 1: "length a' \<le> ref y" using q la by (auto simp: classified_def)
  have 2: "\<forall>r \<in> set (refs y). r < length b' \<and> (length a' \<le> r \<or> r \<in> set (refs x))"
    using q la lb by (fastforce simp: classified_def)
  have 3: "compositeKidsNew (length a') b' y"
    using compositeKidsNew_mono [OF _ la ub rs] q by (simp add: classified_def)
  show ?thesis using 1 2 3 by (simp add: classified_def)
qed

lemma classifyLayer_s_frame:
  "decoded s t \<Longrightarrow> classifyLayer_s s t = (s', t') \<Longrightarrow> unchanged s s' \<and> classified s s' t t'"
proof (induction t arbitrary: s s' t')
  case (ONode r ks)
  define n where "n = length s"
  define wt where "wt = determineWidgetType (view s (ONode r ks))"
  define s3 where "s3 = writeField (writeField (s @ [s ! r]) n (\<lambda>a. a\<lparr>widgetType := Some wt\<rparr>)) n
                          (\<lambda>a. a\<lparr>badgeClass := Some (BADGE_CLASSES wt)\<rparr>)"
  have dec: "\<forall>q \<in> set (refs (ONode r ks)). q < length s \<and> \<not> isComposite (s ! q)"
    using ONode.prems(1) by (simp add: decoded_def list_all_iff)
  have r: "r < length s" "\<not> isComposite (s ! r)" using dec by simp_all
  have u3: "unchanged s s3"
    unfolding s3_def n_def by (intro unchanged_write unchanged_append) simp_all
  have l3: "length s3 = Suc (length s)" by (simp add: s3_def)
  have n3: "\<not> isComposite (s3 ! n)"
    using r by (simp add: s3_def n_def writeField_def)
  have old3: "s3 ! q = s ! q" if "q < length s" for q
    using u3 that by (rule unchanged_nth)
  have kr: "\<forall>k \<in> set ks. \<forall>q \<in> set (refs k). q < length s \<and> \<not> isComposite (s ! q)"
    using dec by auto
  show ?case
  proof (cases "ks \<noteq> [] \<and> wt \<notin> set COMPOSITE_WIDGETS")
    case False
    then have res: "s' = s3" "t' = ONode n ks"
      using ONode.prems(2) by (auto simp: Let_def alloc_def wt_def s3_def n_def)
    have c: "compositeKidsNew (length s) s3 (ONode n ks)"
    proof -
      have "\<not> isComposite (s3 ! ref m)" if mm: "m \<in> set (subnodes (ONode n ks))" for m
      proof (cases "m = ONode n ks")
        case True
        then show ?thesis using n3 by simp
      next
        case False
        then obtain k where k: "k \<in> set ks" "m \<in> set (subnodes k)" using mm by auto
        have "ref m \<in> set (refs k)" using k(2) by (rule subnodes_ref)
        then have "ref m < length s \<and> \<not> isComposite (s ! ref m)" using kr k(1) by blast
        then show ?thesis using old3 by simp
      qed
      then show ?thesis by (simp add: compositeKidsNew_def list_all_iff)
    qed
    have rs: "\<forall>q \<in> set (refs (ONode n ks)). q < length s3 \<and> (length s \<le> q \<or> q \<in> set (refs (ONode r ks)))"
      using kr l3 by (fastforce simp: n_def)
    show ?thesis
      unfolding res classified_def using u3 c rs by (simp add: n_def)
  next
    case True
    obtain s4 ks' where m: "mapS classifyLayer_s s3 ks = (s4, ks')"
      by (cases "mapS classifyLayer_s s3 ks")
    have pre: "\<forall>k \<in> set ks. decoded s3 k"
      using decoded_kid [OF decoded_mono [OF ONode.prems(1) u3]] by blast
    have fr: "unchanged s3 s4 \<and> list_all2 (classified s3 s4) ks ks'"
    proof (rule mapS_frame [where Pre = decoded, OF _ _ _ pre m])
      fix x u u' y
      assume "x \<in> set ks" "decoded u x" "classifyLayer_s u x = (u', y)"
      then show "unchanged u u' \<and> classified u u' x y"
        using ONode.IH by blast
    next
      fix a b x assume "decoded a x" "unchanged a b"
      then show "decoded b x" by (rule decoded_mono)
    next
      fix a b a' b' x y
      assume "classified a b x y" "unchanged a' a" "unchanged b b'"
      then show "classified a' b' x y" by (rule classified_mono)
    qed
    have u4: "unchanged s3 s4" using fr by simp
    have l4: "length s3 \<le> length s4" using u4 by (rule unchanged_length)
    have nlt: "n < length s4" using l3 l4 by (simp add: n_def)
    define s7 where "s7 = (\<lambda>ct. writeField (writeField (writeField s4 n (\<lambda>a. a\<lparr>widgetType := Some ct\<rparr>)) n
                          (\<lambda>a. a\<lparr>badgeClass := Some (BADGE_CLASSES ct)\<rparr>)) n (\<lambda>a. a\<lparr>isComposite := True\<rparr>))"
    have eq: "classifyLayer_s s (ONode r ks) =
                (case detectCompositeWidget (map (view s4) ks') of
                   Some compositeType \<Rightarrow>
                     if widgetType (s4 ! n) = Some Container then (s7 compositeType, ONode n ks')
                     else (s4, ONode n ks')
                 | None \<Rightarrow> (s4, ONode n ks'))"
    proof -
      have e1: "classifyLayer_s s (ONode r ks) =
              (if ks \<noteq> [] \<and> wt \<notin> set COMPOSITE_WIDGETS then
                 (case mapS classifyLayer_s s3 ks of
                    (s4, ks') \<Rightarrow>
                      (case detectCompositeWidget (map (view s4) ks') of
                         Some compositeType \<Rightarrow>
                           if widgetType (s4 ! n) = Some Container then
                             (writeField (writeField (writeField s4 n
                                (\<lambda>a. a\<lparr>widgetType := Some compositeType\<rparr>)) n
                                (\<lambda>a. a\<lparr>badgeClass := Some (BADGE_CLASSES compositeType)\<rparr>)) n
                                (\<lambda>a. a\<lparr>isComposite := True\<rparr>), ONode n ks')
                           else (s4, ONode n ks')
                       | None \<Rightarrow> (s4, ONode n ks')))
               else (s3, ONode n ks))"
        by (simp add: Let_def alloc_def wt_def s3_def n_def split: prod.splits option.splits)
      show ?thesis
        unfolding e1 s7_def using True by (simp add: m)
    qed
    have res: "t' = ONode n ks'" "s' = s4 \<or> (\<exists>ct. s' = s7 ct)"
      using ONode.prems(2) unfolding eq
      by (auto split: option.splits if_splits)
    have us4: "unchanged s s4" using u3 u4 by (rule unchanged_trans)
    have us7: "unchanged s (s7 ct)" for ct
      unfolding s7_def using us4 by (intro unchanged_write) (simp_all add: n_def)
    have us': "unchanged s s'" using res(2) us4 us7 by blast
    have ls': "length s' = length s4" using res(2) by (auto simp: s7_def)
    have other: "s' ! q = s4 ! q" if "q \<noteq> n" for q
      using res(2) that by (auto simp: s7_def nth_writeField_other)
    have kc: "classified s3 s4 k k'" if "(k, k') \<in> set (zip ks ks')" for k k'
      using fr that by (auto simp: list_all2_iff)
    have kin: "\<exists>k. (k, k') \<in> set (zip ks ks') \<and> k \<in> set ks" if k1: "k' \<in> set ks'" for k'
    proof -
      have "length ks = length ks'" using fr by (auto simp: list_all2_iff)
      then obtain i where "i < length ks'" "ks' ! i = k'" "length ks = length ks'"
        using k1 by (auto simp: in_set_conv_nth)
      then have "(ks ! i, k') \<in> set (zip ks ks') \<and> ks ! i \<in> set ks"
        by (auto simp: set_zip)
      then show ?thesis by blast
    qed
    have kref: "q < length s4 \<and> q \<noteq> n \<and> (length s \<le> q \<or> q \<in> set (refs (ONode r ks)))"
      if k1: "k' \<in> set ks'" and k2: "q \<in> set (refs k')" for k' q
    proof -
      obtain k where k: "(k, k') \<in> set (zip ks ks')" "k \<in> set ks" using kin k1 by blast
      have c: "q < length s4 \<and> (length s3 \<le> q \<or> q \<in> set (refs k))"
        using kc [OF k(1)] k2 by (auto simp: classified_def)
      have "q \<in> set (refs k) \<Longrightarrow> q < length s" using kr k(2) by blast
      then show ?thesis using c l3 k(2) by (auto simp: n_def)
    qed
    have kroot: "length s3 \<le> ref k'" if k1: "k' \<in> set ks'" for k'
    proof -
      obtain k where k: "(k, k') \<in> set (zip ks ks')" using kin k1 by blast
      show ?thesis using kc [OF k] by (simp add: classified_def)
    qed
    have rs: "\<forall>q \<in> set (refs (ONode n ks')). q < length s' \<and> (length s \<le> q \<or> q \<in> set (refs (ONode r ks)))"
      using kref nlt ls' by (auto simp: n_def)
    have c: "compositeKidsNew (length s) s' (ONode n ks')"
    proof -
      have "list_all (\<lambda>c. length s \<le> ref c) (kids m)"
        if mm: "m \<in> set (subnodes (ONode n ks'))" and i: "isComposite (s' ! ref m)" for m
      proof (cases "m = ONode n ks'")
        case True
        then show ?thesis using kroot l3 by (fastforce simp: list_all_iff)
      next
        case False
        then obtain k' where k': "k' \<in> set ks'" "m \<in> set (subnodes k')" using mm by auto
        obtain k where k: "(k, k') \<in> set (zip ks ks')" using kin k'(1) by blast
        have "ref m \<in> set (refs k')" using k'(2) by (rule subnodes_ref)
        then have "ref m \<noteq> n" using kref k'(1) by blast
        then have "isComposite (s4 ! ref m)" using i other by simp
        then have "list_all (\<lambda>c. length s3 \<le> ref c) (kids m)"
          using kc [OF k] k'(2) by (auto simp: classified_def compositeKidsNew_def list_all_iff)
        then show ?thesis using l3 by (auto simp: list_all_iff)
      qed
      then show ?thesis by (simp add: compositeKidsNew_def list_all_iff)
    qed
    show ?thesis
      unfolding res(1) classified_def using us' c rs by (simp add: n_def)
  qed
qed

subsection \<open>The generator assigns only below composite nodes\<close>

text \<open>
  The generator reaches \<open>classify\<close> with the children of a node that is marked composite,
  or with no children at all: a node with children that is not marked composite goes to
  \<open>generateContainer\<close>. When the children of all composite nodes are at address \<open>k\<close> or
  above, the objects below \<open>k\<close> stay as they are.
\<close>

lemma keeps_refl: "keeps k s s"
  by (simp add: keeps_def)

lemma keeps_trans: "keeps k s t \<Longrightarrow> keeps k t u \<Longrightarrow> keeps k s u"
  by (simp add: keeps_def)

lemma fillTextInfo_s_keeps:
  assumes "k \<le> ref c"
  shows "keeps k s (fillTextInfo_s s c)"
proof (cases "type (s ! ref c) = Text \<and> textInfo (s ! ref c) = None")
  case False
  then show ?thesis by (auto simp: fillTextInfo_s_def keeps_refl)
next
  case True
  define x where "x = (s ! ref c)\<lparr>textInfo := Some (extractStyle (textData (s ! ref c)))\<rparr>"
  have e: "fillTextInfo_s s c = s[ref c := x]"
    using True by (simp add: fillTextInfo_s_def writeField_def x_def)
  have ix: "isComposite x = isComposite (s ! ref c)" by (simp add: x_def)
  have "isComposite (s[ref c := x] ! r) = isComposite (s ! r)" for r
  proof (cases "ref c < length s")
    case True
    then show ?thesis using ix by (cases "r = ref c") simp_all
  next
    case False
    then have "s[ref c := x] = s" by (intro list_update_beyond) simp
    then show ?thesis by simp
  qed
  then show ?thesis
    unfolding e keeps_def using assms by simp
qed

lemma classify_s_keeps:
  "\<forall>c \<in> set cs. k \<le> ref c \<Longrightarrow> keeps k s (classify_s s cs)"
proof (induction cs arbitrary: s)
  case Nil
  then show ?case by (simp add: classify_s_def keeps_refl)
next
  case (Cons c cs)
  have 1: "keeps k s (fillTextInfo_s s c)"
    using Cons.prems by (intro fillTextInfo_s_keeps) simp
  have 2: "keeps k (fillTextInfo_s s c) (classify_s (fillTextInfo_s s c) cs)"
    using Cons.prems by (intro Cons.IH) simp
  have "classify_s s (c # cs) = classify_s (fillTextInfo_s s c) cs"
    by (simp add: classify_s_def)
  then show ?case using keeps_trans [OF 1 2] by simp
qed

lemma generateWidget_s_keeps:
  "\<forall>c \<in> set (kids t). k \<le> ref c \<Longrightarrow> keeps k s (generateWidget_s s t)"
  by (simp add: generateWidget_s_def keeps_refl classify_s_keeps)

lemma compositeKidsNew_keeps:
  "compositeKidsNew k s t \<Longrightarrow> keeps k s s' \<Longrightarrow> compositeKidsNew k s' t"
  by (simp add: compositeKidsNew_def keeps_def)

lemma subnodes_self: "t \<in> set (subnodes t)"
  by (cases t) simp

lemma subnodes_kid: "c \<in> set (kids t) \<Longrightarrow> set (subnodes c) \<subseteq> set (subnodes t)"
  by (cases t) auto

lemma compositeKidsNew_kid:
  "compositeKidsNew k s t \<Longrightarrow> c \<in> set (kids t) \<Longrightarrow> compositeKidsNew k s c"
  using subnodes_kid [of c t] by (auto simp: compositeKidsNew_def list_all_iff)

lemma compositeKidsNew_root:
  "compositeKidsNew k s t \<Longrightarrow> isComposite (s ! ref t) \<Longrightarrow> \<forall>c \<in> set (kids t). k \<le> ref c"
  using subnodes_self [of t] by (auto simp: compositeKidsNew_def list_all_iff)

lemma foldl_keeps:
  assumes step: "\<And>c u. c \<in> set cs \<Longrightarrow> Inv u c \<Longrightarrow> keeps k u (g u c)"
    and inv: "\<And>c u u'. Inv u c \<Longrightarrow> keeps k u u' \<Longrightarrow> Inv u' c"
    and init: "\<forall>c \<in> set cs. Inv s c"
  shows "keeps k s (foldl g s cs)"
  using step init
proof (induction cs arbitrary: s)
  case Nil
  then show ?case by (simp add: keeps_refl)
next
  case (Cons c cs)
  have 1: "keeps k s (g s c)" using Cons.prems by simp
  have i: "\<forall>c' \<in> set cs. Inv (g s c) c'" using Cons.prems(2) inv 1 by auto
  have 2: "keeps k (g s c) (foldl g (g s c) cs)"
  proof (rule Cons.IH [OF _ i])
    fix c' u assume "c' \<in> set cs" "Inv u c'"
    then show "keeps k u (g u c')" using Cons.prems(1) by simp
  qed
  show ?case using keeps_trans [OF 1 2] by simp
qed

lemma generate_keeps:
  "compositeKidsNew k s t \<Longrightarrow>
     keeps k s (generateContainer_s s t) \<and>
     (isComposite (s ! ref t) \<longrightarrow> keeps k s (generateCompositeWidget_s s t)) \<and>
     keeps k s (generateElement_s s t)"
proof (induction t arbitrary: s)
  case (ONode r ks)
  define g where "g = (\<lambda>s' child.
              if widgetType (s' ! ref child) = Some Container \<or>
                 (kids child \<noteq> [] \<and> \<not> isComposite (s' ! ref child))
              then generateElement_s s' child
              else generateWidget_s s' child)"
  have cont: "keeps k u (generateContainer_s u (ONode r ks))"
    if cu: "compositeKidsNew k u (ONode r ks)" for u
  proof -
    have e: "generateContainer_s u (ONode r ks) = foldl g u ks"
      by (simp add: g_def)
    show ?thesis
      unfolding e
    proof (rule foldl_keeps [where Inv = "compositeKidsNew k"])
      fix c v assume c: "c \<in> set ks" and iv: "compositeKidsNew k v c"
      show "keeps k v (g v c)"
      proof (cases "widgetType (v ! ref c) = Some Container \<or>
                    (kids c \<noteq> [] \<and> \<not> isComposite (v ! ref c))")
        case True
        then have "g v c = generateElement_s v c" by (simp add: g_def)
        then show ?thesis using ONode.IH [OF c iv] by simp
      next
        case False
        then have gw: "g v c = generateWidget_s v c" by (auto simp: g_def)
        have "kids c = [] \<or> isComposite (v ! ref c)" using False by blast
        then have "\<forall>c' \<in> set (kids c). k \<le> ref c'"
          using compositeKidsNew_root [OF iv] by auto
        then show ?thesis unfolding gw by (rule generateWidget_s_keeps)
      qed
    next
      fix c v v' assume "compositeKidsNew k v c" "keeps k v v'"
      then show "compositeKidsNew k v' c" by (rule compositeKidsNew_keeps)
    next
      show "\<forall>c \<in> set ks. compositeKidsNew k u c"
        using compositeKidsNew_kid [OF cu] by simp
    qed
  qed
  have c1: "keeps k s (generateContainer_s s (ONode r ks))"
    using cont ONode.prems by blast
  have c2: "keeps k s (generateCompositeWidget_s s (ONode r ks))" if i: "isComposite (s ! r)"
  proof -
    have "\<forall>c \<in> set ks. k \<le> ref c"
      using compositeKidsNew_root [OF ONode.prems] i by simp
    then have "keeps k s (classify_s s ks)" by (rule classify_s_keeps)
    then show ?thesis using c1 by (simp add: keeps_refl del: generateContainer_s.simps)
  qed
  have c3: "keeps k s (generateElement_s s (ONode r ks))"
  proof (cases "isComposite (s ! r)")
    case True
    then show ?thesis using c2 by (simp del: generateContainer_s.simps generateCompositeWidget_s.simps)
  next
    case False
    show ?thesis
    proof (cases "widgetType (s ! r) = Some Container \<or> ks \<noteq> []")
      case True
      then show ?thesis using False c1
        by (simp del: generateContainer_s.simps generateCompositeWidget_s.simps)
    next
      case F2: False
      then have "keeps k s (generateWidget_s s (ONode r ks))"
        by (intro generateWidget_s_keeps) simp
      then show ?thesis using False F2
        by (simp del: generateContainer_s.simps generateCompositeWidget_s.simps)
    qed
  qed
  show ?case using c1 c2 c3 by simp
qed

lemma createWrapperContainer_s_keeps:
  "\<forall>b \<in> set buf. kids b = [] \<Longrightarrow> keeps k s (createWrapperContainer_s s buf)"
  unfolding createWrapperContainer_s_def
proof (rule foldl_keeps [where Inv = "\<lambda>u b. kids b = []"])
  fix c u assume "c \<in> set buf" "kids c = []"
  then show "keeps k u (generateWidget_s u c)"
    by (intro generateWidget_s_keeps) simp
qed simp_all

lemma wrapLoop_s_keeps:
  "\<forall>b \<in> set buf. kids b = [] \<Longrightarrow> \<forall>t \<in> set layers. compositeKidsNew k s t \<Longrightarrow>
     keeps k s (wrapLoop_s s buf layers)"
proof (induction layers arbitrary: s buf)
  case Nil
  then show ?case by (simp add: keeps_refl createWrapperContainer_s_keeps)
next
  case (Cons layer layers)
  show ?case
  proof (cases "widgetType (s ! ref layer) = Some Container \<or> isComposite (s ! ref layer) \<or>
                (kids layer \<noteq> [] \<and> \<not> isComposite (s ! ref layer))")
    case True
    define s1 where "s1 = (if buf \<noteq> [] then createWrapperContainer_s s buf else s)"
    have k1: "keeps k s s1"
      using Cons.prems(1) by (simp add: s1_def keeps_refl createWrapperContainer_s_keeps)
    have "compositeKidsNew k s1 layer"
      using Cons.prems(2) k1 compositeKidsNew_keeps by auto
    then have k2: "keeps k s1 (generateElement_s s1 layer)"
      using generate_keeps by blast
    have k12: "keeps k s (generateElement_s s1 layer)" using k1 k2 by (rule keeps_trans)
    have "\<forall>t \<in> set layers. compositeKidsNew k (generateElement_s s1 layer) t"
      using Cons.prems(2) k12 compositeKidsNew_keeps by auto
    then have k3: "keeps k (generateElement_s s1 layer) (wrapLoop_s (generateElement_s s1 layer) [] layers)"
      by (intro Cons.IH) simp_all
    have "wrapLoop_s s buf (layer # layers) = wrapLoop_s (generateElement_s s1 layer) [] layers"
      using True by (simp add: s1_def)
    then show ?thesis using keeps_trans [OF k12 k3] by simp
  next
    case False
    then have kl: "kids layer = []" by blast
    have "keeps k s (wrapLoop_s s (buf @ [layer]) layers)"
      using Cons.prems kl by (intro Cons.IH) auto
    moreover have "wrapLoop_s s buf (layer # layers) = wrapLoop_s s (buf @ [layer]) layers"
      using False by auto
    ultimately show ?thesis by simp
  qed
qed

lemma generateElementorJson_s_keeps:
  "\<forall>t \<in> set layers. compositeKidsNew k s t \<Longrightarrow> keeps k s (generateElementorJson_s s layers)"
  unfolding generateElementorJson_s_def wrapInContainers_s_def
  by (intro wrapLoop_s_keeps) simp_all

lemma unchanged_keeps: "unchanged s s' \<Longrightarrow> keeps (length s) s' s'' \<Longrightarrow> unchanged s s''"
  by (simp add: unchanged_def keeps_def)

subsection \<open>Tree building creates every node of its result\<close>

text \<open>
  Every function of the tree building assigns only to the object it has created, and
  every node of its result is created during the call.
\<close>

lemma newNode_mono:
  "newNode a b y \<Longrightarrow> unchanged a' a \<Longrightarrow> unchanged b b' \<Longrightarrow> newNode a' b' y"
  using unchanged_length [of a' a] unchanged_length [of b b']
  by (fastforce simp: newNode_def list_all_iff)

lemma newNodes_mono:
  "list_all (newNode a b) ys \<Longrightarrow> unchanged a' a \<Longrightarrow> unchanged b b' \<Longrightarrow> list_all (newNode a' b') ys"
  using newNode_mono by (auto simp: list_all_iff)

lemma mapS_new:
  assumes step: "\<And>x u u' y. x \<in> set xs \<Longrightarrow> f u x = (u', y) \<Longrightarrow> unchanged u u' \<and> Q u u' y"
    and q_mono: "\<And>a b a' b' y. Q a b y \<Longrightarrow> unchanged a' a \<Longrightarrow> unchanged b b' \<Longrightarrow> Q a' b' y"
    and run: "mapS f s xs = (s', ys)"
  shows "unchanged s s' \<and> list_all (Q s s') ys"
proof -
  have "unchanged s s' \<and> list_all2 (\<lambda>x y. Q s s' y) xs ys"
  proof (rule mapS_frame [where Pre = "\<lambda>u x. True" and Q = "\<lambda>u u' x y. Q u u' y", OF _ _ _ _ run])
    fix x u u' y assume "x \<in> set xs" "f u x = (u', y)"
    then show "unchanged u u' \<and> Q u u' y" by (rule step)
  next
    fix a b a' b' y assume "Q a b y" "unchanged a' a" "unchanged b b'"
    then show "Q a' b' y" by (rule q_mono)
  qed simp_all
  moreover have "list_all2 (\<lambda>x y. Q s s' y) xs ys \<Longrightarrow> list_all (Q s s') ys"
    by (induction rule: list_all2_induct) simp_all
  ultimately show ?thesis by blast
qed

lemma copyChild_s_new:
  "copyChild_s s l = (s', y) \<Longrightarrow> unchanged s s' \<and> newNode s s' y"
  by (auto simp: copyChild_s_def alloc_def newNode_def unchanged_append)

lemma write_new:
  assumes "unchanged s t \<and> newNode s t y" "length s \<le> n"
  shows "unchanged s (writeField t n f) \<and> newNode s (writeField t n f) y"
  using assms by (simp add: unchanged_write newNode_def)

lemma buildWidgetFromLayer_s_new:
  assumes "buildWidgetFromLayer_s s newId l infr = (s', y)"
  shows "unchanged s s' \<and> newNode s s' y"
proof -
  define n where "n = length s"
  define a0 where "a0 =
            \<lparr>id_l = (if lid l \<noteq> [] then lid l else newId), name = name (attrs l),
             type = type (attrs l), visible = visible (attrs l), bounds = lbounds l,
             textInfo = None, textData = None, hasImage = False,
             widgetType = Some (i_widgetType infr),
             badgeClass = Some (getBadgeClass (i_widgetType infr)),
             isComposite = False, isSmartDetected = True,
             confidence = Some (i_confidence infr), compositeData = None,
             sourceLayerCount = None, layout = None, isRepeatingPattern = False,
             patternCount = None\<rparr>"
  define s2 where "s2 = (case textInfo (attrs l) of
                  None \<Rightarrow> s @ [a0]
                | Some ti \<Rightarrow> writeField (s @ [a0]) n (\<lambda>a. a\<lparr>textInfo := Some ti\<rparr>))"
  define s3 where "s3 = (if hasImage (attrs l) then writeField s2 n (\<lambda>a. a\<lparr>hasImage := True\<rparr>) else s2)"
  have e: "buildWidgetFromLayer_s s newId l infr = (s3, ONode n [])"
    unfolding buildWidgetFromLayer_s_def s3_def s2_def a0_def n_def
    by (simp add: Let_def alloc_def)
  have 1: "unchanged s (s @ [a0]) \<and> newNode s (s @ [a0]) (ONode n [])"
    by (simp add: unchanged_append newNode_def n_def)
  have 2: "unchanged s s2 \<and> newNode s s2 (ONode n [])"
    unfolding s2_def using 1 write_new [OF 1, of n] by (simp add: n_def split: option.splits)
  have 3: "unchanged s s3 \<and> newNode s s3 (ONode n [])"
    unfolding s3_def using 2 write_new [OF 2, of n] by (simp add: n_def)
  show ?thesis using assms e 3 by simp
qed

lemma newNode_ONode:
  "newNode s s' (ONode n ks) \<longleftrightarrow> length s \<le> n \<and> n < length s' \<and> list_all (newNode s s') ks"
  by (auto simp: newNode_def list_all_iff)

lemma buildClassifiedLayer_s_new:
  assumes "buildClassifiedLayer_s s newId infr bnds = (s', y)"
  shows "unchanged s s' \<and> newNode s s' y"
proof -
  define n where "n = length s"
  define wt where "wt = i_widgetType infr"
  define ls where "ls = i_layers infr"
  define a0 where "a0 =
            \<lparr>id_l = newId, name = ''Smart '' @ widgetName wt,
             type = (if wt = Container then Group
                     else (case ls of [] \<Rightarrow> Group | l # _ \<Rightarrow> type (attrs l))),
             visible = True, bounds = bnds, textInfo = None, textData = None,
             hasImage = False, widgetType = Some wt, badgeClass = None,
             isComposite = False, isSmartDetected = True,
             confidence = Some (i_confidence infr), compositeData = None,
             sourceLayerCount = None, layout = None, isRepeatingPattern = False,
             patternCount = None\<rparr>"
  define sb where "sb = (\<lambda>cd. writeField (writeField (s @ [a0]) n (\<lambda>a. a\<lparr>compositeData := Some cd\<rparr>)) n
                            (\<lambda>a. a\<lparr>isComposite := True\<rparr>))"
  define p2 where "p2 = (case i_compositeData infr of
               None \<Rightarrow> (s @ [a0], [])
             | Some cd \<Rightarrow> mapS copyChild_s (sb cd) ls)"
  define s3 where "s3 = (if wt = Container
                then writeField (fst p2) n (\<lambda>a. a\<lparr>sourceLayerCount := Some (length ls)\<rparr>)
                else fst p2)"
  define s4 where "s4 = (if wt = Heading \<or> wt = TextEditor then
                  (case ls of
                     [] \<Rightarrow> s3
                   | l # _ \<Rightarrow>
                       (case textInfo (attrs l) of
                          None \<Rightarrow> s3
                        | Some ti \<Rightarrow> writeField s3 n (\<lambda>a. a\<lparr>textInfo := Some ti\<rparr>)))
                else s3)"
  have e: "buildClassifiedLayer_s s newId infr bnds = (s4, ONode n (snd p2))"
    unfolding buildClassifiedLayer_s_def s4_def s3_def p2_def sb_def a0_def ls_def wt_def n_def
      Let_def alloc_def case_prod_beta fst_conv snd_conv
    by (rule refl)
  have 1: "unchanged s (s @ [a0]) \<and> newNode s (s @ [a0]) (ONode n [])"
    by (simp add: unchanged_append newNode_def n_def)
  have b: "unchanged s (sb cd) \<and> newNode s (sb cd) (ONode n [])" for cd
    unfolding sb_def by (intro write_new 1) (simp_all add: n_def)
  have 2: "unchanged s (fst p2) \<and> newNode s (fst p2) (ONode n (snd p2))"
  proof (cases "i_compositeData infr")
    case None
    then show ?thesis using 1 by (simp add: p2_def)
  next
    case (Some cd)
    obtain s2 ks where m: "mapS copyChild_s (sb cd) ls = (s2, ks)"
      by (cases "mapS copyChild_s (sb cd) ls")
    have f: "unchanged (sb cd) s2 \<and> list_all (newNode (sb cd) s2) ks"
    proof (rule mapS_new [OF _ _ m])
      fix x u u' y assume "copyChild_s u x = (u', y)"
      then show "unchanged u u' \<and> newNode u u' y" by (rule copyChild_s_new)
    next
      fix a b a' b' y assume "newNode a b y" "unchanged a' a" "unchanged b b'"
      then show "newNode a' b' y" by (rule newNode_mono)
    qed
    have u: "unchanged s s2" using b f unchanged_trans by blast
    have k: "list_all (newNode s s2) ks"
      using newNodes_mono [OF conjunct2 [OF f] conjunct1 [OF b] unchanged_refl] .
    have "n < length s2"
      using b [of cd] unchanged_length [OF conjunct1 [OF f]] by (simp add: newNode_def)
    then show ?thesis
      using Some m u k by (simp add: p2_def newNode_ONode n_def)
  qed
  have 3: "unchanged s s3 \<and> newNode s s3 (ONode n (snd p2))"
    unfolding s3_def using 2 write_new [OF 2, of n] by (simp add: n_def)
  have 4: "unchanged s s4 \<and> newNode s s4 (ONode n (snd p2))"
    unfolding s4_def using 3 write_new [OF 3, of n]
    by (simp add: n_def split: list.splits option.splits)
  show ?thesis using assms e 4 by simp
qed

lemma ref_kids: "ONode (ref t) (kids t) = t"
  by (cases t) simp

lemma processCluster_s_new:
  "processCluster_s gen path s cluster = (s', y) \<Longrightarrow> unchanged s s' \<and> newNode s s' y"
proof (induction "length cluster" arbitrary: gen path s cluster s' y rule: less_induct)
  case less
  define infr where "infr = inferWidgetType cluster"
  define bnds where "bnds = calculateClusterBounds cluster"
  obtain s1 element where b: "buildClassifiedLayer_s s (gen path) infr bnds = (s1, element)"
    by (cases "buildClassifiedLayer_s s (gen path) infr bnds")
  define p2 where "p2 =
            (if i_widgetType infr = Container \<and> length cluster > 1 then
               (if length (subClusterLayers cluster) > 1 then
                  mapS (\<lambda>s' (j, sub). processCluster_s gen (path @ [j]) s' sub) s1
                    (enumerate 0 (subClusterLayers cluster))
                else
                  mapS (\<lambda>s' (j, l).
                          buildWidgetFromLayer_s s' (gen (path @ [j])) l (inferWidgetType [l])) s1
                    (enumerate 0 cluster))
             else (s1, kids element))"
  define s3 where "s3 = writeField (fst p2) (ref element)
                 (\<lambda>a. a\<lparr>badgeClass := Some (getBadgeClass (i_widgetType infr))\<rparr>)"
  have e: "processCluster_s gen path s cluster = (s3, ONode (ref element) (snd p2))"
    unfolding processCluster_s.simps [of gen path s cluster] s3_def p2_def infr_def bnds_def
      Let_def case_prod_beta b [unfolded infr_def bnds_def] fst_conv snd_conv
    by (rule refl)
  have 1: "unchanged s s1 \<and> newNode s s1 element"
    using b by (rule buildClassifiedLayer_s_new)
  have r1: "length s \<le> ref element" "ref element < length s1"
    using 1 newNode_ONode [of s s1 "ref element" "kids element"] by (simp_all add: ref_kids)
  have k1: "list_all (newNode s s1) (kids element)"
    using 1 newNode_ONode [of s s1 "ref element" "kids element"] by (simp add: ref_kids)
  have 2: "unchanged s1 (fst p2) \<and> list_all (newNode s (fst p2)) (snd p2)"
  proof (cases "i_widgetType infr = Container \<and> length cluster > 1")
    case False
    then have "p2 = (s1, kids element)" by (auto simp: p2_def)
    then show ?thesis using k1 by (simp add: unchanged_refl)
  next
    case True
    show ?thesis
    proof (cases "length (subClusterLayers cluster) > 1")
      case T2: True
      define f where "f = (\<lambda>s' (j, sub). processCluster_s gen (path @ [j]) s' sub)"
      obtain s2 ks where m: "mapS f s1 (enumerate 0 (subClusterLayers cluster)) = (s2, ks)"
        by (cases "mapS f s1 (enumerate 0 (subClusterLayers cluster))")
      have p: "p2 = (s2, ks)" using True T2 m by (simp add: p2_def f_def)
      have fr: "unchanged s1 s2 \<and> list_all (newNode s1 s2) ks"
      proof (rule mapS_new [OF _ _ m])
        fix x u u' y'
        assume x: "x \<in> set (enumerate 0 (subClusterLayers cluster))" and fx: "f u x = (u', y')"
        obtain j sub where js: "x = (j, sub)" by (cases x)
        have "length sub < length cluster"
          using subClusterLayers_smaller [of j sub cluster] x T2 js by simp
        moreover have "processCluster_s gen (path @ [j]) u sub = (u', y')"
          using fx js by (simp add: f_def)
        ultimately show "unchanged u u' \<and> newNode u u' y'"
          using less.hyps by blast
      next
        fix a b a' b' y' assume "newNode a b y'" "unchanged a' a" "unchanged b b'"
        then show "newNode a' b' y'" by (rule newNode_mono)
      qed
      have "list_all (newNode s s2) ks"
        using newNodes_mono [OF conjunct2 [OF fr] conjunct1 [OF 1] unchanged_refl] .
      then show ?thesis using fr p by simp
    next
      case F2: False
      define f where "f = (\<lambda>s' (j, l).
                          buildWidgetFromLayer_s s' (gen (path @ [j])) l (inferWidgetType [l]))"
      obtain s2 ks where m: "mapS f s1 (enumerate 0 cluster) = (s2, ks)"
        by (cases "mapS f s1 (enumerate 0 cluster)")
      have p: "p2 = (s2, ks)" using True F2 m by (simp add: p2_def f_def)
      have fr: "unchanged s1 s2 \<and> list_all (newNode s1 s2) ks"
      proof (rule mapS_new [OF _ _ m])
        fix x u u' y'
        assume fx: "f u x = (u', y')"
        obtain j l where jl: "x = (j, l)" by (cases x)
        have "buildWidgetFromLayer_s u (gen (path @ [j])) l (inferWidgetType [l]) = (u', y')"
          using fx jl by (simp add: f_def)
        then show "unchanged u u' \<and> newNode u u' y'"
          by (rule buildWidgetFromLayer_s_new)
      next
        fix a b a' b' y' assume "newNode a b y'" "unchanged a' a" "unchanged b b'"
        then show "newNode a' b' y'" by (rule newNode_mono)
      qed
      have "list_all (newNode s s2) ks"
        using newNodes_mono [OF conjunct2 [OF fr] conjunct1 [OF 1] unchanged_refl] .
      then show ?thesis using fr p by simp
    qed
  qed
  have u2: "unchanged s (fst p2)" using 1 2 unchanged_trans by blast
  have l2: "ref element < length (fst p2)"
    using r1(2) unchanged_length [OF conjunct1 [OF 2]] by simp
  have "unchanged s (fst p2) \<and> newNode s (fst p2) (ONode (ref element) (snd p2))"
    using u2 l2 r1(1) 2 by (simp add: newNode_ONode)
  then have "unchanged s s3 \<and> newNode s s3 (ONode (ref element) (snd p2))"
    unfolding s3_def using r1(1) by (intro write_new)
  then show ?case using less.prems e by simp
qed

lemma createRowContainer_s_new:
  assumes "createRowContainer_s gen path s clusters = (s', y)"
  shows "unchanged s s' \<and> newNode s s' y"
proof -
  define f where "f = (\<lambda>s' (j, cluster). processCluster_s gen (path @ [j]) s' cluster)"
  define pat where "pat = detectRepeatingPatterns clusters"
  define a0 where "a0 =
            \<lparr>id_l = gen path,
             name = (if p_isRepeating pat then ''Card Row'' else ''Row Container''),
             type = Group, visible = True, bounds = calculateClusterBounds (concat clusters),
             textInfo = None, textData = None,
             hasImage = False, widgetType = Some Container, badgeClass = Some ''container'',
             isComposite = False, isSmartDetected = True, confidence = None,
             compositeData = None, sourceLayerCount = None,
             layout = Some \<lparr>l_direction = Row, l_wrap = False, l_gap = None,
                             justifyContent = ''space-between'', alignItems = ''flex-start''\<rparr>,
             isRepeatingPattern = False, patternCount = None\<rparr>"
  obtain s1 ks where m: "mapS f s (enumerate 0 clusters) = (s1, ks)"
    by (cases "mapS f s (enumerate 0 clusters)")
  define n where "n = length s1"
  define s3 where "s3 = (if p_isRepeating pat
                then writeField (writeField (s1 @ [a0]) n (\<lambda>a. a\<lparr>isRepeatingPattern := True\<rparr>)) n
                       (\<lambda>a. a\<lparr>patternCount := p_count pat\<rparr>)
                else s1 @ [a0])"
  have e: "createRowContainer_s gen path s clusters = (s3, ONode n ks)"
    unfolding createRowContainer_s_def s3_def n_def a0_def pat_def
      Let_def alloc_def m [unfolded f_def] case_prod_beta fst_conv snd_conv
    by (rule refl)
  have fr: "unchanged s s1 \<and> list_all (newNode s s1) ks"
  proof (rule mapS_new [OF _ _ m])
    fix x u u' y'
    assume fx: "f u x = (u', y')"
    obtain j c where jc: "x = (j, c)" by (cases x)
    have "processCluster_s gen (path @ [j]) u c = (u', y')"
      using fx jc by (simp add: f_def)
    then show "unchanged u u' \<and> newNode u u' y'"
      by (rule processCluster_s_new)
  next
    fix a b a' b' y' assume "newNode a b y'" "unchanged a' a" "unchanged b b'"
    then show "newNode a' b' y'" by (rule newNode_mono)
  qed
  have le: "length s \<le> n" using fr unchanged_length by (auto simp: n_def)
  have u1: "unchanged s (s1 @ [a0])"
    using fr unchanged_append unchanged_trans by blast
  have k1: "list_all (newNode s (s1 @ [a0])) ks"
    using newNodes_mono [OF conjunct2 [OF fr] unchanged_refl unchanged_append] .
  have 1: "unchanged s (s1 @ [a0]) \<and> newNode s (s1 @ [a0]) (ONode n ks)"
    using u1 k1 le by (simp add: newNode_ONode n_def)
  have "unchanged s s3 \<and> newNode s s3 (ONode n ks)"
    unfolding s3_def using 1 write_new [OF write_new [OF 1 le] le] by simp
  then show ?thesis using assms e by simp
qed

lemma rowResults_s_new:
  assumes "rowResults_s gen s rows = (s', ys)"
  shows "unchanged s s' \<and> list_all (newNode s s') ys"
proof -
  define f where "f = (\<lambda>s' (i, row).
                   if row = [] then (s', [])
                   else if length row = 1 then
                     (case processCluster_s gen [i] s' (hd row) of (s1, n) \<Rightarrow> (s1, [n]))
                   else
                     (case createRowContainer_s gen [i] s' row of (s1, n) \<Rightarrow> (s1, [n])))"
  obtain s1 rs where m: "mapS f s (enumerate 0 rows) = (s1, rs)"
    by (cases "mapS f s (enumerate 0 rows)")
  have e: "rowResults_s gen s rows = (s1, concat rs)"
    by (simp add: rowResults_s_def m [unfolded f_def])
  have fr: "unchanged s s1 \<and> list_all (\<lambda>r. list_all (newNode s s1) r) rs"
  proof (rule mapS_new [where Q = "\<lambda>u u' r. list_all (newNode u u') r", OF _ _ m])
    fix x u u' y'
    assume fx: "f u x = (u', y')"
    obtain i row where ir: "x = (i, row)" by (cases x)
    consider "row = []" | "row \<noteq> []" "length row = 1" | "row \<noteq> []" "length row \<noteq> 1" by blast
    then show "unchanged u u' \<and> list_all (newNode u u') y'"
    proof cases
      case 1
      then show ?thesis using fx ir by (auto simp: f_def unchanged_refl)
    next
      case 2
      obtain u1 n where p: "processCluster_s gen [i] u (hd row) = (u1, n)"
        by (cases "processCluster_s gen [i] u (hd row)")
      have "u' = u1 \<and> y' = [n]" using fx ir 2 p by (auto simp: f_def)
      then show ?thesis using processCluster_s_new [OF p] by simp
    next
      case 3
      obtain u1 n where p: "createRowContainer_s gen [i] u row = (u1, n)"
        by (cases "createRowContainer_s gen [i] u row")
      have "u' = u1 \<and> y' = [n]" using fx ir 3 p by (auto simp: f_def)
      then show ?thesis using createRowContainer_s_new [OF p] by simp
    qed
  next
    fix a b a' b' y'
    assume "list_all (newNode a b) y'" "unchanged a' a" "unchanged b b'"
    then show "list_all (newNode a' b') y'" by (rule newNodes_mono)
  qed
  then have "list_all (newNode s s1) (concat rs)"
    by (auto simp: list_all_iff)
  then show ?thesis using assms e fr by simp
qed

lemma buildTree_s_new:
  assumes "buildTree_s gen s rows = (s', ys)"
  shows "unchanged s s' \<and> list_all (newNode s s') ys"
proof -
  obtain s1 result where r: "rowResults_s gen s rows = (s1, result)"
    by (cases "rowResults_s gen s rows")
  have fr: "unchanged s s1 \<and> list_all (newNode s s1) result"
    using r by (rule rowResults_s_new)
  consider "result = []" | "result \<noteq> []" "length result = 1" | "result \<noteq> []" "length result \<noteq> 1"
    by blast
  then show ?thesis
  proof cases
    case 1
    then show ?thesis using assms r fr by (simp add: buildTree_s_def)
  next
    case 2
    then show ?thesis using assms r fr by (simp add: buildTree_s_def)
  next
    case 3
    define a where "a = attrs (createColumnContainer (gen []) (map (view s1) result))"
    have e: "s' = s1 @ [a]" "ys = [ONode (length s1) result]"
      using assms r 3 by (simp_all add: buildTree_s_def createColumnContainer_s_def alloc_def a_def)
    have u: "unchanged s (s1 @ [a])"
      using fr unchanged_append unchanged_trans by blast
    have k: "list_all (newNode s (s1 @ [a])) result"
      using newNodes_mono [OF conjunct2 [OF fr] unchanged_refl unchanged_append] .
    show ?thesis
      unfolding e using u k unchanged_length [OF conjunct1 [OF fr]] by (simp add: newNode_ONode)
  qed
qed

lemma newNode_compositeKidsNew: "newNode s s' t \<Longrightarrow> compositeKidsNew (length s) s'' t"
proof -
  assume n: "newNode s s' t"
  have "length s \<le> ref c" if m: "m \<in> set (subnodes t)" and c: "c \<in> set (kids m)" for m c
    using n subnodes_kid_ref [OF m c] by (auto simp: newNode_def list_all_iff)
  then show ?thesis by (simp add: compositeKidsNew_def list_all_iff)
qed

lemma classifyLayers_s_frame:
  assumes d: "list_all (decoded s) ts" and c: "classifyLayers_s s ts = (s', ts')"
  shows "unchanged s s' \<and> list_all (\<lambda>t'. length s \<le> ref t') ts' \<and>
         list_all (compositeKidsNew (length s) s') ts' \<and>
         unchanged s (generateElementorJson_s s' ts')"
proof -
  have fr: "unchanged s s' \<and> list_all2 (classified s s') ts ts'"
  proof (rule mapS_frame [where Pre = decoded, OF _ _ _ _ c [unfolded classifyLayers_s_def]])
    fix x u u' y
    assume "decoded u x" "classifyLayer_s u x = (u', y)"
    then show "unchanged u u' \<and> classified u u' x y"
      by (rule classifyLayer_s_frame)
  next
    fix a b x assume "decoded a x" "unchanged a b"
    then show "decoded b x" by (rule decoded_mono)
  next
    fix a b a' b' x y
    assume "classified a b x y" "unchanged a' a" "unchanged b b'"
    then show "classified a' b' x y" by (rule classified_mono)
  next
    show "\<forall>x \<in> set ts. decoded s x" using d by (simp add: list_all_iff)
  qed
  have "list_all2 (classified s s') ts ts' \<Longrightarrow>
        list_all (\<lambda>t'. length s \<le> ref t' \<and> compositeKidsNew (length s) s' t') ts'"
    by (induction rule: list_all2_induct) (simp_all add: classified_def)
  then have k: "list_all (\<lambda>t'. length s \<le> ref t' \<and> compositeKidsNew (length s) s' t') ts'"
    using fr by blast
  have "keeps (length s) s' (generateElementorJson_s s' ts')"
    using k by (intro generateElementorJson_s_keeps) (simp add: list_all_iff)
  then have "unchanged s (generateElementorJson_s s' ts')"
    using fr unchanged_keeps by blast
  then show ?thesis using fr k by (simp add: list_all_iff)
qed

lemma buildTree_s_frame:
  assumes "buildTree_s gen s rows = (s', roots)"
  shows "unchanged s s' \<and> list_all (newNode s s') roots \<and>
         unchanged s (generateElementorJson_s s' roots)"
proof -
  have fr: "unchanged s s' \<and> list_all (newNode s s') roots"
    using assms by (rule buildTree_s_new)
  have "keeps (length s) s' (generateElementorJson_s s' roots)"
    using fr newNode_compositeKidsNew
    by (intro generateElementorJson_s_keeps) (auto simp: list_all_iff)
  then show ?thesis using fr unchanged_keeps by blast
qed

subsection \<open>The store model of the classifier and the functional one\<close>

text \<open>
  Read through the store after the call, the tree that \<open>classifyLayer\<close> returns over the
  store is the tree that the functional \<open>classifyLayer\<close> returns for the input as it was
  read before the call.
\<close>

lemma view_cong: "\<forall>r \<in> set (refs t). s' ! r = s ! r \<Longrightarrow> view s' t = view s t"
  by (induction t) (auto simp: map_eq_conv)

lemma view_unchanged:
  "\<forall>r \<in> set (refs t). r < length s \<Longrightarrow> unchanged s s' \<Longrightarrow> view s' t = view s t"
  using unchanged_nth by (intro view_cong) auto

lemma decoded_refs: "decoded s t \<Longrightarrow> \<forall>r \<in> set (refs t). r < length s"
  by (simp add: decoded_def list_all_iff)

lemma classified_refs: "classified u u' x y \<Longrightarrow> \<forall>r \<in> set (refs y). r < length u'"
  by (simp add: classified_def)

lemma classifyLayer_s_view:
  "decoded s t \<Longrightarrow> classifyLayer_s s t = (s', t') \<Longrightarrow> view s' t' = classifyLayer (view s t)"
proof (induction t arbitrary: s s' t')
  case (ONode r ks)
  define n where "n = length s"
  define wt where "wt = determineWidgetType (view s (ONode r ks))"
  define cl where "cl = (s ! r)\<lparr>widgetType := Some wt, badgeClass := Some (BADGE_CLASSES wt)\<rparr>"
  define s3 where "s3 = writeField (writeField (s @ [s ! r]) n (\<lambda>a. a\<lparr>widgetType := Some wt\<rparr>)) n
                          (\<lambda>a. a\<lparr>badgeClass := Some (BADGE_CLASSES wt)\<rparr>)"
  have fr: "unchanged s s' \<and> classified s s' (ONode r ks) t'"
    using ONode.prems by (rule classifyLayer_s_frame)
  have dk: "\<forall>k \<in> set ks. decoded s k" using decoded_kid [OF ONode.prems(1)] by blast
  have rk: "\<forall>k \<in> set ks. \<forall>q \<in> set (refs k). q < length s" using dk decoded_refs by blast
  have u3: "unchanged s s3"
    unfolding s3_def n_def by (intro unchanged_write unchanged_append) simp_all
  have l3: "length s3 = Suc (length s)" by (simp add: s3_def)
  have n3: "s3 ! n = cl"
    by (simp add: s3_def n_def writeField_def cl_def)
  have v3: "map (view s3) ks = map (view s) ks"
    using rk u3 view_unchanged by (simp add: map_eq_conv)
  have pure: "classifyLayer (view s (ONode r ks)) =
      (if ks \<noteq> [] \<and> wt \<notin> set COMPOSITE_WIDGETS then
           (case detectCompositeWidget (map classifyLayer (map (view s) ks)) of
                 Some compositeType \<Rightarrow>
                   if wt = Container
                   then Node (cl\<lparr>widgetType := Some compositeType,
                                badgeClass := Some (BADGE_CLASSES compositeType),
                                isComposite := True\<rparr>) (map classifyLayer (map (view s) ks))
                   else Node cl (map classifyLayer (map (view s) ks))
               | None \<Rightarrow> Node cl (map classifyLayer (map (view s) ks)))
         else Node cl (map (view s) ks))"
    unfolding view.simps classifyLayer.simps Let_def wt_def cl_def
    by simp
  show ?case
  proof (cases "ks \<noteq> [] \<and> wt \<notin> set COMPOSITE_WIDGETS")
    case False
    then have res: "s' = s3" "t' = ONode n ks"
      using ONode.prems(2) by (auto simp: Let_def alloc_def wt_def s3_def n_def)
    have "view s3 (ONode n ks) = Node cl (map (view s) ks)"
      using n3 v3 by simp
    then show ?thesis unfolding res pure using False by auto
  next
    case True
    obtain s4 ks' where m: "mapS classifyLayer_s s3 ks = (s4, ks')"
      by (cases "mapS classifyLayer_s s3 ks")
    define s7 where "s7 = (\<lambda>ct. writeField (writeField (writeField s4 n (\<lambda>a. a\<lparr>widgetType := Some ct\<rparr>)) n
                          (\<lambda>a. a\<lparr>badgeClass := Some (BADGE_CLASSES ct)\<rparr>)) n (\<lambda>a. a\<lparr>isComposite := True\<rparr>))"
    have eq: "classifyLayer_s s (ONode r ks) =
                (case detectCompositeWidget (map (view s4) ks') of
                   Some compositeType \<Rightarrow>
                     if widgetType (s4 ! n) = Some Container then (s7 compositeType, ONode n ks')
                     else (s4, ONode n ks')
                 | None \<Rightarrow> (s4, ONode n ks'))"
    proof -
      have e1: "classifyLayer_s s (ONode r ks) =
              (if ks \<noteq> [] \<and> wt \<notin> set COMPOSITE_WIDGETS then
                 (case mapS classifyLayer_s s3 ks of
                    (s4, ks') \<Rightarrow>
                      (case detectCompositeWidget (map (view s4) ks') of
                         Some compositeType \<Rightarrow>
                           if widgetType (s4 ! n) = Some Container then
                             (writeField (writeField (writeField s4 n
                                (\<lambda>a. a\<lparr>widgetType := Some compositeType\<rparr>)) n
                                (\<lambda>a. a\<lparr>badgeClass := Some (BADGE_CLASSES compositeType)\<rparr>)) n
                                (\<lambda>a. a\<lparr>isComposite := True\<rparr>), ONode n ks')
                           else (s4, ONode n ks')
                       | None \<Rightarrow> (s4, ONode n ks')))
               else (s3, ONode n ks))"
        by (simp add: Let_def alloc_def wt_def s3_def n_def split: prod.splits option.splits)
      show ?thesis
        unfolding e1 s7_def using True by (simp add: m)
    qed
    have pre: "\<forall>k \<in> set ks. decoded s3 k \<and> unchanged s s3"
      using dk u3 decoded_mono by blast
    have f4: "unchanged s3 s4 \<and>
              list_all2 (\<lambda>x y. view s4 y = classifyLayer (view s x) \<and> classified s3 s4 x y) ks ks'"
    proof -
      have a: "unchanged s3 s4 \<and>
               list_all2 (\<lambda>x y. view s4 y = classifyLayer (view s x) \<and>
                                 (\<forall>q \<in> set (refs y). q < length s4)) ks ks'"
      proof (rule mapS_frame [where Pre = "\<lambda>u x. decoded u x \<and> unchanged s u"
               and Q = "\<lambda>u u' x y. view u' y = classifyLayer (view s x) \<and>
                                   (\<forall>q \<in> set (refs y). q < length u')", OF _ _ _ pre m])
        fix x u u' y
        assume x: "x \<in> set ks" and p: "decoded u x \<and> unchanged s u"
          and c: "classifyLayer_s u x = (u', y)"
        have 1: "unchanged u u' \<and> classified u u' x y"
          using p c classifyLayer_s_frame by blast
        have 2: "view u' y = classifyLayer (view u x)"
          using ONode.IH [OF x _ c] p by blast
        have 3: "view u x = view s x"
          using rk x p view_unchanged by blast
        show "unchanged u u' \<and> (view u' y = classifyLayer (view s x) \<and>
                (\<forall>q \<in> set (refs y). q < length u'))"
          using 1 2 3 classified_refs by auto
      next
        fix a b x assume "decoded a x \<and> unchanged s a" "unchanged a b"
        then show "decoded b x \<and> unchanged s b"
          using decoded_mono unchanged_trans by blast
      next
        fix a b a' b' x y
        assume q: "view b y = classifyLayer (view s x) \<and> (\<forall>q \<in> set (refs y). q < length b)"
          and ub: "unchanged b b'"
        have "view b' y = view b y" using q ub view_unchanged by blast
        then show "view b' y = classifyLayer (view s x) \<and> (\<forall>q \<in> set (refs y). q < length b')"
          using q unchanged_length [OF ub] by fastforce
      qed
      have b: "unchanged s3 s4 \<and> list_all2 (classified s3 s4) ks ks'"
      proof (rule mapS_frame [where Pre = decoded, OF _ _ _ _ m])
        fix x u u' y
        assume "decoded u x" "classifyLayer_s u x = (u', y)"
        then show "unchanged u u' \<and> classified u u' x y" by (rule classifyLayer_s_frame)
      next
        fix a b x assume "decoded a x" "unchanged a b"
        then show "decoded b x" by (rule decoded_mono)
      next
        fix a b a' b' x y
        assume "classified a b x y" "unchanged a' a" "unchanged b b'"
        then show "classified a' b' x y" by (rule classified_mono)
      next
        show "\<forall>x \<in> set ks. decoded s3 x" using pre by blast
      qed
      show ?thesis using a b by (auto simp: list_all2_conv_all_nth)
    qed
    have v4: "map (view s4) ks' = map classifyLayer (map (view s) ks)"
      using f4 by (auto simp: list_all2_conv_all_nth intro!: nth_equalityI)
    have notn: "q \<noteq> n" if k': "k' \<in> set ks'" and q: "q \<in> set (refs k')" for k' q
    proof -
      obtain i where i: "i < length ks'" "ks' ! i = k'" "length ks = length ks'"
        using k' f4 by (auto simp: in_set_conv_nth list_all2_conv_all_nth)
      have "classified s3 s4 (ks ! i) k'"
        using f4 i by (auto simp: list_all2_conv_all_nth)
      then have "length s3 \<le> q \<or> q \<in> set (refs (ks ! i))"
        using q by (auto simp: classified_def)
      moreover have "q \<in> set (refs (ks ! i)) \<Longrightarrow> q < length s"
        using rk i by (metis nth_mem)
      ultimately show ?thesis using l3 by (auto simp: n_def)
    qed
    have v7: "map (view (s7 ct)) ks' = map (view s4) ks'" for ct
    proof -
      have "view (s7 ct) k' = view s4 k'" if k': "k' \<in> set ks'" for k'
      proof (rule view_cong, rule ballI)
        fix q assume "q \<in> set (refs k')"
        then have "q \<noteq> n" using notn k' by blast
        then show "s7 ct ! q = s4 ! q" by (simp add: s7_def nth_writeField_other)
      qed
      then show ?thesis by (simp add: map_eq_conv)
    qed
    have nlt: "n < length s4"
      using l3 unchanged_length [OF conjunct1 [OF f4]] by (simp add: n_def)
    have n4: "s4 ! n = cl"
      using unchanged_nth [OF conjunct1 [OF f4], of n] l3 n3 by (simp add: n_def)
    have n7: "s7 ct ! n = cl\<lparr>widgetType := Some ct, badgeClass := Some (BADGE_CLASSES ct),
                               isComposite := True\<rparr>" for ct
      using nlt n4 by (simp add: s7_def writeField_def)
    have w4: "widgetType (s4 ! n) = Some Container \<longleftrightarrow> wt = Container"
      by (simp add: n4 cl_def)
    have "view s' t' = classifyLayer (view s (ONode r ks))"
    proof (cases "detectCompositeWidget (map (view s4) ks')")
      case None
      then have "s' = s4" "t' = ONode n ks'" using ONode.prems(2) unfolding eq by simp_all
      then show ?thesis unfolding pure using True None n4 v4 by simp
    next
      case (Some ct)
      show ?thesis
      proof (cases "wt = Container")
        case C: True
        then have "s' = s7 ct" "t' = ONode n ks'"
          using ONode.prems(2) Some w4 unfolding eq by simp_all
        then show ?thesis unfolding pure using True Some C n7 v7 v4 by simp
      next
        case C: False
        then have "s' = s4" "t' = ONode n ks'"
          using ONode.prems(2) Some w4 unfolding eq by simp_all
        then show ?thesis unfolding pure using True Some C n4 v4 by simp
      qed
    qed
    then show ?thesis .
  qed
qed

lemma classifyLayers_s_view:
  assumes d: "list_all (decoded s) ts" and c: "classifyLayers_s s ts = (s', ts')"
  shows "map (view s') ts' = classifyLayers (map (view s) ts)"
proof -
  have "unchanged s s' \<and>
        list_all2 (\<lambda>x y. view s' y = classifyLayer (view s x) \<and>
                          (\<forall>q \<in> set (refs y). q < length s')) ts ts'"
  proof (rule mapS_frame [where Pre = "\<lambda>u x. decoded u x \<and> unchanged s u"
           and Q = "\<lambda>u u' x y. view u' y = classifyLayer (view s x) \<and>
                               (\<forall>q \<in> set (refs y). q < length u')",
           OF _ _ _ _ c [unfolded classifyLayers_s_def]])
    fix x u u' y
    assume x: "x \<in> set ts" and p: "decoded u x \<and> unchanged s u"
      and cl: "classifyLayer_s u x = (u', y)"
    have 1: "unchanged u u' \<and> classified u u' x y"
      using p cl classifyLayer_s_frame by blast
    have 2: "view u' y = classifyLayer (view u x)"
      using p cl classifyLayer_s_view by blast
    have "\<forall>r \<in> set (refs x). r < length s"
      using d x decoded_refs by (auto simp: list_all_iff)
    then have 3: "view u x = view s x"
      using p view_unchanged by blast
    show "unchanged u u' \<and> (view u' y = classifyLayer (view s x) \<and>
            (\<forall>q \<in> set (refs y). q < length u'))"
      using 1 2 3 classified_refs by auto
  next
    fix a b x assume "decoded a x \<and> unchanged s a" "unchanged a b"
    then show "decoded b x \<and> unchanged s b"
      using decoded_mono unchanged_trans by blast
  next
    fix a b a' b' x y
    assume q: "view b y = classifyLayer (view s x) \<and> (\<forall>q \<in> set (refs y). q < length b)"
      and ub: "unchanged b b'"
    have "view b' y = view b y" using q ub view_unchanged by blast
    then show "view b' y = classifyLayer (view s x) \<and> (\<forall>q \<in> set (refs y). q < length b')"
      using q unchanged_length [OF ub] by fastforce
  next
    show "\<forall>x \<in> set ts. decoded s x \<and> unchanged s s"
      using d by (simp add: list_all_iff unchanged_refl)
  qed
  then have "list_all2 (\<lambda>x y. view s' y = classifyLayer (view s x)) ts ts'"
    by (auto elim: list_all2_mono)
  then have "map (view s') ts' = map (\<lambda>x. classifyLayer (view s x)) ts"
    by (induction rule: list_all2_induct) simp_all
  then show ?thesis by (simp add: classifyLayers_def comp_def)
qed

text \<open>
  The same for the content classifier: on children that form a tree (no object twice)
  the store after \<open>classify\<close> shows the children that the functional \<open>classify\<close> returns.
\<close>

lemma snd_classify_map: "snd (classify h cs) = map fillTextInfo cs"
  by (simp add: classify_def Let_def)

lemma classify_s_nth:
  "r \<notin> ref ` set cs \<Longrightarrow> classify_s s cs ! r = s ! r"
proof (induction cs arbitrary: s)
  case Nil
  then show ?case by (simp add: classify_s_def)
next
  case (Cons c cs)
  have "classify_s s (c # cs) = classify_s (fillTextInfo_s s c) cs"
    by (simp add: classify_s_def)
  moreover have "classify_s (fillTextInfo_s s c) cs ! r = fillTextInfo_s s c ! r"
    using Cons by simp
  moreover have "fillTextInfo_s s c ! r = s ! r"
    using Cons.prems by (simp add: fillTextInfo_s_def nth_writeField_other)
  ultimately show ?case by simp
qed

lemma fillTextInfo_s_view:
  assumes "ref c < length s" "ref c \<notin> set (concat (map refs (kids c)))"
  shows "view (fillTextInfo_s s c) c = fillTextInfo (view s c)"
proof (cases c)
  case (ONode r ks)
  have k: "map (view (writeField s r f)) ks = map (view s) ks" for f
  proof -
    have "view (writeField s r f) k = view s k" if kk: "k \<in> set ks" for k
    proof (rule view_cong, rule ballI)
      fix q assume "q \<in> set (refs k)"
      then have "q \<noteq> r" using assms(2) ONode kk by auto
      then show "writeField s r f ! q = s ! q" by (rule nth_writeField_other)
    qed
    then show ?thesis by (simp add: map_eq_conv)
  qed
  show ?thesis
    using assms(1) k
    by (simp add: ONode fillTextInfo_s_def fillTextInfo_def nth_writeField_same)
qed

lemma classify_s_view:
  "distinct (concat (map refs cs)) \<Longrightarrow> \<forall>r \<in> set (concat (map refs cs)). r < length s \<Longrightarrow>
   map (view (classify_s s cs)) cs = snd (classify h (map (view s) cs))"
proof (induction cs arbitrary: s)
  case Nil
  then show ?case by (simp add: classify_s_def classify_def Let_def)
next
  case (Cons c cs)
  define s1 where "s1 = fillTextInfo_s s c"
  have e: "classify_s s (c # cs) = classify_s s1 cs"
    by (simp add: classify_s_def s1_def)
  have l1: "length s1 = length s"
    by (simp add: s1_def fillTextInfo_s_def)
  have dc: "distinct (refs c)" and dcs: "distinct (concat (map refs cs))"
    and dj: "set (refs c) \<inter> set (concat (map refs cs)) = {}"
    using Cons.prems(1) by simp_all
  have rc: "ref c < length s" using Cons.prems(2) ref_in_refs [of c] by simp
  have nk: "ref c \<notin> set (concat (map refs (kids c)))"
    using dc by (cases c) simp
  have v1: "view s1 c = fillTextInfo (view s c)"
    unfolding s1_def using rc nk by (rule fillTextInfo_s_view)
  have vF: "view (classify_s s1 cs) c = view s1 c"
  proof (rule view_cong, rule ballI)
    fix q assume q: "q \<in> set (refs c)"
    have "q \<notin> ref ` set cs"
    proof
      assume "q \<in> ref ` set cs"
      then obtain k where "k \<in> set cs" "q = ref k" by blast
      then have "q \<in> set (concat (map refs cs))" using ref_in_refs [of k] by auto
      then show False using dj q by blast
    qed
    then show "classify_s s1 cs ! q = s1 ! q" by (rule classify_s_nth)
  qed
  have ih: "map (view (classify_s s1 cs)) cs = snd (classify h (map (view s1) cs))"
    using dcs Cons.prems(2) l1 by (intro Cons.IH) simp_all
  have vs: "map (view s1) cs = map (view s) cs"
  proof -
    have "view s1 k = view s k" if kk: "k \<in> set cs" for k
    proof (rule view_cong, rule ballI)
      fix q assume "q \<in> set (refs k)"
      then have "q \<noteq> ref c" using dj kk ref_in_refs [of c] by auto
      then show "s1 ! q = s ! q"
        by (simp add: s1_def fillTextInfo_s_def nth_writeField_other)
    qed
    then show ?thesis by (simp add: map_eq_conv)
  qed
  show ?case
    unfolding e using v1 vF ih vs by (simp add: snd_classify_map)
qed

subsection \<open>The store model of the tree building and the functional one\<close>

text \<open>
  On leaf layers the tree that \<open>buildTree\<close> leaves in the store is the tree of the
  functional \<open>buildTree\<close>.
\<close>

lemma clusterLoop_subset:
  "set rest \<subseteq> set allLayers \<Longrightarrow> c \<in> set (clusterLoop allLayers t rest v) \<Longrightarrow>
   set c \<subseteq> set allLayers"
proof (induction rest arbitrary: v)
  case Nil
  then show ?case by simp
next
  case (Cons l rest)
  have la: "l \<in> set allLayers" and ra: "set rest \<subseteq> set allLayers"
    using Cons.prems(1) by auto
  show ?case
  proof (cases "lid l \<in> v")
    case True
    then show ?thesis using Cons.IH [OF ra, of v] Cons.prems(2) by simp
  next
    case False
    obtain c' where ex: "expandCluster l allLayers t v = (v \<union> lid ` set c', c')"
      and inv: "bfs_inv allLayers t v l (v \<union> lid ` set c') c' []"
      using expandCluster_inv [OF la False] by blast
    have "c = c' \<or> c \<in> set (clusterLoop allLayers t rest (v \<union> lid ` set c'))"
      using Cons.prems(2) False ex by (auto split: if_splits)
    then show ?thesis
    proof
      assume "c = c'"
      then show ?thesis using inv by (simp add: bfs_inv_def)
    next
      assume "c \<in> set (clusterLoop allLayers t rest (v \<union> lid ` set c'))"
      then show ?thesis using Cons.IH [OF ra] by blast
    qed
  qed
qed

lemma subClusterLayers_subset:
  "c \<in> set (subClusterLayers cluster) \<Longrightarrow> set c \<subseteq> set cluster"
  using clusterLoop_subset [of cluster cluster c]
  by (auto simp: subClusterLayers_def clusterByProximity_def Let_def split: if_splits)

lemma i_layers_subset: "set (i_layers (inferWidgetType cluster)) \<subseteq> set cluster"
proof -
  have "set (i_layers (classifySingleLayer l)) \<subseteq> {l}" for l
    by (simp add: classifySingleLayer_def Let_def)
  moreover have "length cluster = 1 \<Longrightarrow> hd cluster \<in> set cluster"
    by (cases cluster) simp_all
  ultimately show ?thesis
    by (auto simp: inferWidgetType_def Let_def)
qed

lemma newNode_refs: "newNode s s' y \<Longrightarrow> r \<in> set (refs y) \<Longrightarrow> length s \<le> r \<and> r < length s'"
  by (simp add: newNode_def list_all_iff)

lemma mapS_view:
  assumes step: "\<And>x u u' y. x \<in> set xs \<Longrightarrow> f u x = (u', y) \<Longrightarrow>
                   unchanged u u' \<and> newNode u u' y \<and> view u' y = F x"
    and run: "mapS f s xs = (s', ys)"
  shows "map (view s') ys = map F xs"
proof -
  have "unchanged s s' \<and> list_all2 (\<lambda>x y. newNode s s' y \<and> view s' y = F x) xs ys"
  proof (rule mapS_frame [where Pre = "\<lambda>u x. True"
           and Q = "\<lambda>u u' x y. newNode u u' y \<and> view u' y = F x", OF _ _ _ _ run])
    fix x u u' y assume "x \<in> set xs" "f u x = (u', y)"
    then show "unchanged u u' \<and> (newNode u u' y \<and> view u' y = F x)" using step by blast
  next
    fix a b a' b' x y
    assume q: "newNode a b y \<and> view b y = F x" and ua: "unchanged a' a" and ub: "unchanged b b'"
    have "\<forall>r \<in> set (refs y). r < length b" using q newNode_refs by blast
    then have "view b' y = view b y" using ub by (rule view_unchanged)
    then show "newNode a' b' y \<and> view b' y = F x"
      using q newNode_mono [OF _ ua ub] by simp
  qed simp_all
  then have "list_all2 (\<lambda>x y. view s' y = F x) xs ys"
    by (auto elim: list_all2_mono)
  then show ?thesis
    by (induction rule: list_all2_induct) simp_all
qed

lemma copyChild_s_view:
  "children l = [] \<Longrightarrow> copyChild_s s l = (s', y) \<Longrightarrow> view s' y = compositeChild l"
  by (auto simp: copyChild_s_def alloc_def compositeChild_def)

lemma buildWidgetFromLayer_s_view:
  assumes "buildWidgetFromLayer_s s newId l infr = (s', y)"
  shows "view s' y = buildWidgetFromLayer newId l infr"
proof -
  define n where "n = length s"
  define a0 where "a0 =
            \<lparr>id_l = (if lid l \<noteq> [] then lid l else newId), name = name (attrs l),
             type = type (attrs l), visible = visible (attrs l), bounds = lbounds l,
             textInfo = None, textData = None, hasImage = False,
             widgetType = Some (i_widgetType infr),
             badgeClass = Some (getBadgeClass (i_widgetType infr)),
             isComposite = False, isSmartDetected = True,
             confidence = Some (i_confidence infr), compositeData = None,
             sourceLayerCount = None, layout = None, isRepeatingPattern = False,
             patternCount = None\<rparr>"
  define s2 where "s2 = (case textInfo (attrs l) of
                  None \<Rightarrow> s @ [a0]
                | Some ti \<Rightarrow> writeField (s @ [a0]) n (\<lambda>a. a\<lparr>textInfo := Some ti\<rparr>))"
  define s3 where "s3 = (if hasImage (attrs l) then writeField s2 n (\<lambda>a. a\<lparr>hasImage := True\<rparr>) else s2)"
  have e: "buildWidgetFromLayer_s s newId l infr = (s3, ONode n [])"
    unfolding buildWidgetFromLayer_s_def s3_def s2_def a0_def n_def
    by (simp add: Let_def alloc_def)
  have 2: "length s2 = Suc n \<and> s2 ! n = a0\<lparr>textInfo := textInfo (attrs l)\<rparr>"
    by (simp add: s2_def n_def writeField_def a0_def split: option.splits)
  have 3: "s3 ! n = a0\<lparr>textInfo := textInfo (attrs l), hasImage := hasImage (attrs l)\<rparr>"
    using 2 by (simp add: s3_def writeField_def a0_def)
  have r: "s' = s3" "y = ONode n []" using assms e by simp_all
  show ?thesis
    unfolding r using 3 by (simp add: buildWidgetFromLayer_def a0_def)
qed

lemma buildClassifiedLayer_s_view:
  assumes lv: "\<forall>l \<in> set (i_layers infr). children l = []"
    and run: "buildClassifiedLayer_s s newId infr bnds = (s', y)"
  shows "view s' y = buildClassifiedLayer newId infr bnds \<and> ref y = length s \<and>
         (\<forall>k \<in> set (kids y). \<forall>r \<in> set (refs k). length s < r)"
proof -
  define n where "n = length s"
  define wt where "wt = i_widgetType infr"
  define ls where "ls = i_layers infr"
  define a0 where "a0 =
            \<lparr>id_l = newId, name = ''Smart '' @ widgetName wt,
             type = (if wt = Container then Group
                     else (case ls of [] \<Rightarrow> Group | l # _ \<Rightarrow> type (attrs l))),
             visible = True, bounds = bnds, textInfo = None, textData = None,
             hasImage = False, widgetType = Some wt, badgeClass = None,
             isComposite = False, isSmartDetected = True,
             confidence = Some (i_confidence infr), compositeData = None,
             sourceLayerCount = None, layout = None, isRepeatingPattern = False,
             patternCount = None\<rparr>"
  define sb where "sb = (\<lambda>cd. writeField (writeField (s @ [a0]) n (\<lambda>a. a\<lparr>compositeData := Some cd\<rparr>)) n
                            (\<lambda>a. a\<lparr>isComposite := True\<rparr>))"
  define p2 where "p2 = (case i_compositeData infr of
               None \<Rightarrow> (s @ [a0], [])
             | Some cd \<Rightarrow> mapS copyChild_s (sb cd) ls)"
  define s3 where "s3 = (if wt = Container
                then writeField (fst p2) n (\<lambda>a. a\<lparr>sourceLayerCount := Some (length ls)\<rparr>)
                else fst p2)"
  define s4 where "s4 = (if wt = Heading \<or> wt = TextEditor then
                  (case ls of
                     [] \<Rightarrow> s3
                   | l # _ \<Rightarrow>
                       (case textInfo (attrs l) of
                          None \<Rightarrow> s3
                        | Some ti \<Rightarrow> writeField s3 n (\<lambda>a. a\<lparr>textInfo := Some ti\<rparr>)))
                else s3)"
  define a1 where "a1 = (case i_compositeData infr of
                  None \<Rightarrow> a0
                | Some cd \<Rightarrow> a0\<lparr>compositeData := Some cd, isComposite := True\<rparr>)"
  define ks where "ks = (case i_compositeData infr of
                    None \<Rightarrow> []
                  | Some cd \<Rightarrow> map compositeChild ls)"
  define a2 where "a2 = (if wt = Container then a1\<lparr>sourceLayerCount := Some (length ls)\<rparr> else a1)"
  define a3 where "a3 = (if wt = Heading \<or> wt = TextEditor then
                  (case ls of
                     [] \<Rightarrow> a2
                   | l # _ \<Rightarrow>
                       (case textInfo (attrs l) of
                          None \<Rightarrow> a2
                        | Some ti \<Rightarrow> a2\<lparr>textInfo := Some ti\<rparr>))
                else a2)"
  have e: "buildClassifiedLayer_s s newId infr bnds = (s4, ONode n (snd p2))"
    unfolding buildClassifiedLayer_s_def s4_def s3_def p2_def sb_def a0_def ls_def wt_def n_def
      Let_def alloc_def case_prod_beta fst_conv snd_conv
    by (rule refl)
  have pure: "buildClassifiedLayer newId infr bnds = Node a3 ks"
    unfolding buildClassifiedLayer_def a3_def a2_def a1_def ks_def a0_def ls_def wt_def Let_def
    by (rule refl)
  have b: "length (sb cd) = Suc n \<and>
           sb cd ! n = a0\<lparr>compositeData := Some cd, isComposite := True\<rparr>" for cd
    by (simp add: sb_def n_def writeField_def)
  have 2: "n < length (fst p2) \<and> fst p2 ! n = a1 \<and> map (view (fst p2)) (snd p2) = ks \<and>
           (\<forall>k \<in> set (snd p2). \<forall>r \<in> set (refs k). n < r)"
  proof (cases "i_compositeData infr")
    case None
    then show ?thesis by (simp add: p2_def a1_def ks_def n_def)
  next
    case (Some cd)
    obtain s2 cs where m: "mapS copyChild_s (sb cd) ls = (s2, cs)"
      by (cases "mapS copyChild_s (sb cd) ls")
    have f: "unchanged (sb cd) s2 \<and> list_all (newNode (sb cd) s2) cs"
    proof (rule mapS_new [OF _ _ m])
      fix x u u' y assume "copyChild_s u x = (u', y)"
      then show "unchanged u u' \<and> newNode u u' y" by (rule copyChild_s_new)
    next
      fix a b a' b' y assume "newNode a b y" "unchanged a' a" "unchanged b b'"
      then show "newNode a' b' y" by (rule newNode_mono)
    qed
    have v: "map (view s2) cs = map compositeChild ls"
    proof (rule mapS_view [OF _ m])
      fix x u u' y assume x: "x \<in> set ls" and c: "copyChild_s u x = (u', y)"
      have "children x = []" using lv x by (simp add: ls_def)
      then show "unchanged u u' \<and> newNode u u' y \<and> view u' y = compositeChild x"
        using copyChild_s_new [OF c] copyChild_s_view [OF _ c] by simp
    qed
    have l2: "n < length s2"
      using b [of cd] unchanged_length [OF conjunct1 [OF f]] by simp
    have n2: "s2 ! n = a1"
      using unchanged_nth [OF conjunct1 [OF f], of n] b [of cd] Some by (simp add: a1_def)
    have r2: "\<forall>k \<in> set cs. \<forall>r \<in> set (refs k). n < r"
    proof (intro ballI)
      fix k r assume "k \<in> set cs" "r \<in> set (refs k)"
      then have "length (sb cd) \<le> r"
        using f newNode_refs by (auto simp: list_all_iff)
      then show "n < r" using b [of cd] by simp
    qed
    show ?thesis using Some m l2 n2 v r2 by (simp add: p2_def ks_def)
  qed
  have keepk: "map (view (writeField t n f)) (snd p2) = map (view t) (snd p2)" for t f
  proof -
    have "view (writeField t n f) k = view t k" if kk: "k \<in> set (snd p2)" for k
    proof (rule view_cong, rule ballI)
      fix q assume "q \<in> set (refs k)"
      then have "q \<noteq> n" using 2 kk by auto
      then show "writeField t n f ! q = t ! q" by (rule nth_writeField_other)
    qed
    then show ?thesis by (simp add: map_eq_conv)
  qed
  have 3: "n < length s3 \<and> s3 ! n = a2 \<and> map (view s3) (snd p2) = ks"
    using 2 by (simp add: s3_def a2_def nth_writeField_same keepk)
  have 4: "n < length s4 \<and> s4 ! n = a3 \<and> map (view s4) (snd p2) = ks"
    using 3 by (simp add: s4_def a3_def nth_writeField_same keepk split: list.splits option.splits)
  have r: "s' = s4" "y = ONode n (snd p2)" using run e by simp_all
  show ?thesis
    unfolding r pure using 4 2 by (simp add: n_def)
qed

lemma processCluster_s_view:
  "\<forall>l \<in> set cluster. children l = [] \<Longrightarrow> processCluster_s gen path s cluster = (s', y) \<Longrightarrow>
   view s' y = processCluster gen path cluster"
proof (induction "length cluster" arbitrary: gen path s cluster s' y rule: less_induct)
  case less
  define infr where "infr = inferWidgetType cluster"
  define bnds where "bnds = calculateClusterBounds cluster"
  obtain s1 element where b: "buildClassifiedLayer_s s (gen path) infr bnds = (s1, element)"
    by (cases "buildClassifiedLayer_s s (gen path) infr bnds")
  define p2 where "p2 =
            (if i_widgetType infr = Container \<and> length cluster > 1 then
               (if length (subClusterLayers cluster) > 1 then
                  mapS (\<lambda>s' (j, sub). processCluster_s gen (path @ [j]) s' sub) s1
                    (enumerate 0 (subClusterLayers cluster))
                else
                  mapS (\<lambda>s' (j, l).
                          buildWidgetFromLayer_s s' (gen (path @ [j])) l (inferWidgetType [l])) s1
                    (enumerate 0 cluster))
             else (s1, kids element))"
  define s3 where "s3 = writeField (fst p2) (ref element)
                 (\<lambda>a. a\<lparr>badgeClass := Some (getBadgeClass (i_widgetType infr))\<rparr>)"
  define pel where "pel = buildClassifiedLayer (gen path) infr bnds"
  define pks where "pks =
            (if i_widgetType infr = Container \<and> length cluster > 1 then
               (if length (subClusterLayers cluster) > 1 then
                  map (\<lambda>(j, sub). processCluster gen (path @ [j]) sub)
                    (enumerate 0 (subClusterLayers cluster))
                else
                  map (\<lambda>(j, l). buildWidgetFromLayer (gen (path @ [j])) l (inferWidgetType [l]))
                    (enumerate 0 cluster))
             else children pel)"
  have e: "processCluster_s gen path s cluster = (s3, ONode (ref element) (snd p2))"
    unfolding processCluster_s.simps [of gen path s cluster] s3_def p2_def infr_def bnds_def
      Let_def case_prod_beta b [unfolded infr_def bnds_def] fst_conv snd_conv
    by (rule refl)
  have pure: "processCluster gen path cluster =
              Node ((attrs pel)\<lparr>badgeClass := Some (getBadgeClass (i_widgetType infr))\<rparr>) pks"
    unfolding processCluster.simps [of gen path cluster] pks_def pel_def infr_def bnds_def Let_def
    by (rule refl)
  have lv: "\<forall>l \<in> set (i_layers infr). children l = []"
    using less.prems(1) i_layers_subset [of cluster] by (auto simp: infr_def)
  have 1: "view s1 element = pel \<and> ref element = length s \<and>
           (\<forall>k \<in> set (kids element). \<forall>r \<in> set (refs k). length s < r)"
    unfolding pel_def using lv b by (rule buildClassifiedLayer_s_view)
  have n1: "unchanged s s1 \<and> newNode s s1 element"
    using b by (rule buildClassifiedLayer_s_new)
  have r1: "ref element < length s1"
    using n1 newNode_refs [of s s1 element "ref element"] ref_in_refs by blast
  have a1: "s1 ! ref element = attrs pel" and k1: "map (view s1) (kids element) = children pel"
    using 1 by (cases element; cases pel; simp)+
  have 2: "unchanged s1 (fst p2) \<and> map (view (fst p2)) (snd p2) = pks \<and>
           (\<forall>k \<in> set (snd p2). \<forall>r \<in> set (refs k). ref element < r)"
  proof (cases "i_widgetType infr = Container \<and> length cluster > 1")
    case False
    then have "p2 = (s1, kids element)" "pks = children pel" by (auto simp: p2_def pks_def)
    then show ?thesis using k1 1 by (simp add: unchanged_refl)
  next
    case True
    show ?thesis
    proof (cases "length (subClusterLayers cluster) > 1")
      case T2: True
      define f where "f = (\<lambda>s' (j, sub). processCluster_s gen (path @ [j]) s' sub)"
      obtain s2 ks where m: "mapS f s1 (enumerate 0 (subClusterLayers cluster)) = (s2, ks)"
        by (cases "mapS f s1 (enumerate 0 (subClusterLayers cluster))")
      have p: "p2 = (s2, ks)" using True T2 m by (simp add: p2_def f_def)
      have pk: "pks = map (\<lambda>(j, sub). processCluster gen (path @ [j]) sub)
                        (enumerate 0 (subClusterLayers cluster))"
        using True T2 by (simp add: pks_def)
      have st: "unchanged u u' \<and> newNode u u' y' \<and>
                view u' y' = (\<lambda>(j, sub). processCluster gen (path @ [j]) sub) x"
        if x: "x \<in> set (enumerate 0 (subClusterLayers cluster))" and fx: "f u x = (u', y')"
        for x u u' y'
      proof -
        obtain j sub where js: "x = (j, sub)" by (cases x)
        have sm: "length sub < length cluster"
          using subClusterLayers_smaller [of j sub cluster] x T2 js by simp
        have "sub \<in> set (subClusterLayers cluster)"
          using x js by (auto simp: in_set_enumerate_eq)
        then have lf: "\<forall>l \<in> set sub. children l = []"
          using subClusterLayers_subset less.prems(1) by blast
        have pc: "processCluster_s gen (path @ [j]) u sub = (u', y')"
          using fx js by (simp add: f_def)
        show ?thesis
          using less.hyps [OF sm lf pc] processCluster_s_new [OF pc] js by simp
      qed
      have fr: "unchanged s1 s2 \<and> list_all (newNode s1 s2) ks"
      proof (rule mapS_new [OF _ _ m])
        fix x u u' y'
        assume "x \<in> set (enumerate 0 (subClusterLayers cluster))" "f u x = (u', y')"
        then show "unchanged u u' \<and> newNode u u' y'" using st by blast
      next
        fix a b a' b' y' assume "newNode a b y'" "unchanged a' a" "unchanged b b'"
        then show "newNode a' b' y'" by (rule newNode_mono)
      qed
      have v: "map (view s2) ks = pks"
        unfolding pk using st by (rule mapS_view [OF _ m])
      have "\<forall>k \<in> set ks. \<forall>r \<in> set (refs k). ref element < r"
        using fr r1 newNode_refs by (fastforce simp: list_all_iff)
      then show ?thesis using fr v p by simp
    next
      case F2: False
      define f where "f = (\<lambda>s' (j, l).
                          buildWidgetFromLayer_s s' (gen (path @ [j])) l (inferWidgetType [l]))"
      obtain s2 ks where m: "mapS f s1 (enumerate 0 cluster) = (s2, ks)"
        by (cases "mapS f s1 (enumerate 0 cluster)")
      have p: "p2 = (s2, ks)" using True F2 m by (simp add: p2_def f_def)
      have pk: "pks = map (\<lambda>(j, l). buildWidgetFromLayer (gen (path @ [j])) l (inferWidgetType [l]))
                        (enumerate 0 cluster)"
        using True F2 by (simp add: pks_def)
      have st: "unchanged u u' \<and> newNode u u' y' \<and>
                view u' y' = (\<lambda>(j, l). buildWidgetFromLayer (gen (path @ [j])) l (inferWidgetType [l])) x"
        if fx: "f u x = (u', y')" for x u u' y'
      proof -
        obtain j l where jl: "x = (j, l)" by (cases x)
        have bw: "buildWidgetFromLayer_s u (gen (path @ [j])) l (inferWidgetType [l]) = (u', y')"
          using fx jl by (simp add: f_def)
        show ?thesis
          using buildWidgetFromLayer_s_new [OF bw] buildWidgetFromLayer_s_view [OF bw] jl by simp
      qed
      have fr: "unchanged s1 s2 \<and> list_all (newNode s1 s2) ks"
      proof (rule mapS_new [OF _ _ m])
        fix x u u' y'
        assume "f u x = (u', y')"
        then show "unchanged u u' \<and> newNode u u' y'" using st by blast
      next
        fix a b a' b' y' assume "newNode a b y'" "unchanged a' a" "unchanged b b'"
        then show "newNode a' b' y'" by (rule newNode_mono)
      qed
      have v: "map (view s2) ks = pks"
        unfolding pk using st by (rule mapS_view [OF _ m])
      have "\<forall>k \<in> set ks. \<forall>r \<in> set (refs k). ref element < r"
        using fr r1 newNode_refs by (fastforce simp: list_all_iff)
      then show ?thesis using fr v p by simp
    qed
  qed
  have l2: "ref element < length (fst p2)"
    using r1 unchanged_length [OF conjunct1 [OF 2]] by simp
  have a2: "fst p2 ! ref element = attrs pel"
    using unchanged_nth [OF conjunct1 [OF 2] r1] a1 by simp
  have a3: "s3 ! ref element = (attrs pel)\<lparr>badgeClass := Some (getBadgeClass (i_widgetType infr))\<rparr>"
    using l2 a2 by (simp add: s3_def nth_writeField_same)
  have k3: "map (view s3) (snd p2) = pks"
  proof -
    have "view s3 k = view (fst p2) k" if kk: "k \<in> set (snd p2)" for k
    proof (rule view_cong, rule ballI)
      fix q assume "q \<in> set (refs k)"
      then have "q \<noteq> ref element" using 2 kk by auto
      then show "s3 ! q = fst p2 ! q" unfolding s3_def by (rule nth_writeField_other)
    qed
    then have "map (view s3) (snd p2) = map (view (fst p2)) (snd p2)" by (simp add: map_eq_conv)
    then show ?thesis using 2 by simp
  qed
  have r: "s' = s3" "y = ONode (ref element) (snd p2)" using less.prems(2) e by simp_all
  show ?case unfolding r pure using a3 k3 by simp
qed

lemma mapS_views:
  assumes step: "\<And>x u u' y. x \<in> set xs \<Longrightarrow> f u x = (u', y) \<Longrightarrow>
                   unchanged u u' \<and> list_all (newNode u u') y \<and> map (view u') y = F x"
    and run: "mapS f s xs = (s', ys)"
  shows "map (map (view s')) ys = map F xs"
proof -
  have "unchanged s s' \<and>
        list_all2 (\<lambda>x y. list_all (newNode s s') y \<and> map (view s') y = F x) xs ys"
  proof (rule mapS_frame [where Pre = "\<lambda>u x. True"
           and Q = "\<lambda>u u' x y. list_all (newNode u u') y \<and> map (view u') y = F x",
           OF _ _ _ _ run])
    fix x u u' y assume "x \<in> set xs" "f u x = (u', y)"
    then show "unchanged u u' \<and> (list_all (newNode u u') y \<and> map (view u') y = F x)"
      using step by blast
  next
    fix a b a' b' x y
    assume q: "list_all (newNode a b) y \<and> map (view b) y = F x"
      and ua: "unchanged a' a" and ub: "unchanged b b'"
    have "view b' k = view b k" if kk: "k \<in> set y" for k
    proof -
      have "\<forall>r \<in> set (refs k). r < length b"
        using q kk newNode_refs by (auto simp: list_all_iff)
      then show ?thesis using ub by (rule view_unchanged)
    qed
    then have "map (view b') y = map (view b) y" by (simp add: map_eq_conv)
    then show "list_all (newNode a' b') y \<and> map (view b') y = F x"
      using q newNodes_mono [OF _ ua ub] by simp
  qed simp_all
  then have "list_all2 (\<lambda>x y. map (view s') y = F x) xs ys"
    by (auto elim: list_all2_mono)
  then show ?thesis
    by (induction rule: list_all2_induct) simp_all
qed

lemma createRowContainer_s_view:
  assumes lv: "\<forall>c \<in> set clusters. \<forall>l \<in> set c. children l = []"
    and run: "createRowContainer_s gen path s clusters = (s', y)"
  shows "view s' y = createRowContainer gen path clusters"
proof -
  define f where "f = (\<lambda>s' (j, cluster). processCluster_s gen (path @ [j]) s' cluster)"
  define pat where "pat = detectRepeatingPatterns clusters"
  define a0 where "a0 =
            \<lparr>id_l = gen path,
             name = (if p_isRepeating pat then ''Card Row'' else ''Row Container''),
             type = Group, visible = True, bounds = calculateClusterBounds (concat clusters),
             textInfo = None, textData = None,
             hasImage = False, widgetType = Some Container, badgeClass = Some ''container'',
             isComposite = False, isSmartDetected = True, confidence = None,
             compositeData = None, sourceLayerCount = None,
             layout = Some \<lparr>l_direction = Row, l_wrap = False, l_gap = None,
                             justifyContent = ''space-between'', alignItems = ''flex-start''\<rparr>,
             isRepeatingPattern = False, patternCount = None\<rparr>"
  obtain s1 ks where m: "mapS f s (enumerate 0 clusters) = (s1, ks)"
    by (cases "mapS f s (enumerate 0 clusters)")
  define n where "n = length s1"
  define s3 where "s3 = (if p_isRepeating pat
                then writeField (writeField (s1 @ [a0]) n (\<lambda>a. a\<lparr>isRepeatingPattern := True\<rparr>)) n
                       (\<lambda>a. a\<lparr>patternCount := p_count pat\<rparr>)
                else s1 @ [a0])"
  have e: "createRowContainer_s gen path s clusters = (s3, ONode n ks)"
    unfolding createRowContainer_s_def s3_def n_def a0_def pat_def
      Let_def alloc_def m [unfolded f_def] case_prod_beta fst_conv snd_conv
    by (rule refl)
  have pure: "createRowContainer gen path clusters =
              Node (if p_isRepeating pat
                    then a0\<lparr>isRepeatingPattern := True, patternCount := p_count pat\<rparr>
                    else a0)
                (map (\<lambda>(j, cluster). processCluster gen (path @ [j]) cluster) (enumerate 0 clusters))"
    unfolding createRowContainer_def a0_def pat_def Let_def
    by (rule refl)
  have st: "unchanged u u' \<and> newNode u u' y' \<and>
            view u' y' = (\<lambda>(j, cluster). processCluster gen (path @ [j]) cluster) x"
    if x: "x \<in> set (enumerate 0 clusters)" and fx: "f u x = (u', y')" for x u u' y'
  proof -
    obtain j c where jc: "x = (j, c)" by (cases x)
    have "c \<in> set clusters" using x jc by (auto simp: in_set_enumerate_eq)
    then have lf: "\<forall>l \<in> set c. children l = []" using lv by blast
    have pc: "processCluster_s gen (path @ [j]) u c = (u', y')"
      using fx jc by (simp add: f_def)
    show ?thesis
      using processCluster_s_view [OF lf pc] processCluster_s_new [OF pc] jc by simp
  qed
  have fr: "unchanged s s1 \<and> list_all (newNode s s1) ks"
  proof (rule mapS_new [OF _ _ m])
    fix x u u' y'
    assume "x \<in> set (enumerate 0 clusters)" "f u x = (u', y')"
    then show "unchanged u u' \<and> newNode u u' y'" using st by blast
  next
    fix a b a' b' y' assume "newNode a b y'" "unchanged a' a" "unchanged b b'"
    then show "newNode a' b' y'" by (rule newNode_mono)
  qed
  have v1: "map (view s1) ks =
            map (\<lambda>(j, cluster). processCluster gen (path @ [j]) cluster) (enumerate 0 clusters)"
    using st by (rule mapS_view [OF _ m])
  have u3: "unchanged s1 s3"
    unfolding s3_def n_def by (auto intro!: unchanged_write unchanged_append)
  have v3: "map (view s3) ks = map (view s1) ks"
  proof -
    have "view s3 k = view s1 k" if kk: "k \<in> set ks" for k
    proof -
      have "\<forall>r \<in> set (refs k). r < length s1"
        using fr kk newNode_refs by (auto simp: list_all_iff)
      then show ?thesis using u3 by (rule view_unchanged)
    qed
    then show ?thesis by (simp add: map_eq_conv)
  qed
  have a3: "s3 ! n = (if p_isRepeating pat
                    then a0\<lparr>isRepeatingPattern := True, patternCount := p_count pat\<rparr>
                    else a0)"
    by (simp add: s3_def n_def writeField_def)
  have r: "s' = s3" "y = ONode n ks" using run e by simp_all
  show ?thesis unfolding r pure using a3 v3 v1 by simp
qed

lemma rowResults_s_view:
  assumes lv: "\<forall>row \<in> set rows. \<forall>c \<in> set row. \<forall>l \<in> set c. children l = []"
    and run: "rowResults_s gen s rows = (s', ys)"
  shows "map (view s') ys = rowResults gen rows"
proof -
  define f where "f = (\<lambda>s' (i, row).
                   if row = [] then (s', [])
                   else if length row = 1 then
                     (case processCluster_s gen [i] s' (hd row) of (s1, n) \<Rightarrow> (s1, [n]))
                   else
                     (case createRowContainer_s gen [i] s' row of (s1, n) \<Rightarrow> (s1, [n])))"
  define F where "F = (\<lambda>(i, row).
                    if row = [] then []
                    else if length row = 1 then [processCluster gen [i] (hd row)]
                    else [createRowContainer gen [i] row])"
  obtain s1 rs where m: "mapS f s (enumerate 0 rows) = (s1, rs)"
    by (cases "mapS f s (enumerate 0 rows)")
  have e: "rowResults_s gen s rows = (s1, concat rs)"
    by (simp add: rowResults_s_def m [unfolded f_def])
  have pure: "rowResults gen rows = concat (map F (enumerate 0 rows))"
    by (simp add: rowResults_def F_def)
  have v: "map (map (view s1)) rs = map F (enumerate 0 rows)"
  proof (rule mapS_views [OF _ m])
    fix x u u' y'
    assume x: "x \<in> set (enumerate 0 rows)" and fx: "f u x = (u', y')"
    obtain i row where ir: "x = (i, row)" by (cases x)
    have rin: "row \<in> set rows" using x ir by (auto simp: in_set_enumerate_eq)
    consider "row = []" | "row \<noteq> []" "length row = 1" | "row \<noteq> []" "length row \<noteq> 1" by blast
    then show "unchanged u u' \<and> list_all (newNode u u') y' \<and> map (view u') y' = F x"
    proof cases
      case 1
      then show ?thesis using fx ir by (auto simp: f_def F_def unchanged_refl)
    next
      case 2
      obtain u1 n where p: "processCluster_s gen [i] u (hd row) = (u1, n)"
        by (cases "processCluster_s gen [i] u (hd row)")
      have r: "u' = u1 \<and> y' = [n]" using fx ir 2 p by (auto simp: f_def)
      have "hd row \<in> set row" using 2 by simp
      then have lf: "\<forall>l \<in> set (hd row). children l = []" using lv rin by blast
      show ?thesis
        using r processCluster_s_new [OF p] processCluster_s_view [OF lf p] ir 2
        by (simp add: F_def)
    next
      case 3
      obtain u1 n where p: "createRowContainer_s gen [i] u row = (u1, n)"
        by (cases "createRowContainer_s gen [i] u row")
      have r: "u' = u1 \<and> y' = [n]" using fx ir 3 p by (auto simp: f_def)
      have lf: "\<forall>c \<in> set row. \<forall>l \<in> set c. children l = []" using lv rin by blast
      show ?thesis
        using r createRowContainer_s_new [OF p] createRowContainer_s_view [OF lf p] ir 3
        by (simp add: F_def)
    qed
  qed
  have "map (view s1) (concat rs) = concat (map (map (view s1)) rs)"
    by (simp add: map_concat)
  then have "map (view s1) (concat rs) = rowResults gen rows"
    using v pure by simp
  then show ?thesis using run e by simp
qed

lemma buildTree_s_view:
  assumes lv: "list_all (list_all (list_all (\<lambda>l. children l = []))) rows"
    and run: "buildTree_s gen s rows = (s', roots)"
  shows "map (view s') roots = buildTree gen rows"
proof -
  obtain s1 result where r: "rowResults_s gen s rows = (s1, result)"
    by (cases "rowResults_s gen s rows")
  have lv': "\<forall>row \<in> set rows. \<forall>c \<in> set row. \<forall>l \<in> set c. children l = []"
    using lv by (simp add: list_all_iff)
  have v: "map (view s1) result = rowResults gen rows"
    using lv' r by (rule rowResults_s_view)
  have fr: "unchanged s s1 \<and> list_all (newNode s s1) result"
    using r by (rule rowResults_s_new)
  have len: "length (rowResults gen rows) = length result"
    using v by (metis length_map)
  consider "result = []" | "result \<noteq> []" "length result = 1" | "result \<noteq> []" "length result \<noteq> 1"
    by blast
  then show ?thesis
  proof cases
    case 1
    then show ?thesis using run r v by (simp add: buildTree_s_def buildTree_def)
  next
    case 2
    then have "rowResults gen rows \<noteq> []" using len by auto
    then show ?thesis using 2 run r v len by (simp add: buildTree_s_def buildTree_def)
  next
    case 3
    then have ne: "rowResults gen rows \<noteq> []" using len by auto
    define a where "a = attrs (createColumnContainer (gen []) (map (view s1) result))"
    have e: "s' = s1 @ [a]" "roots = [ONode (length s1) result]"
      using run r 3 by (simp_all add: buildTree_s_def createColumnContainer_s_def alloc_def a_def)
    have v2: "map (view (s1 @ [a])) result = map (view s1) result"
    proof -
      have "view (s1 @ [a]) k = view s1 k" if kk: "k \<in> set result" for k
      proof -
        have "\<forall>q \<in> set (refs k). q < length s1"
          using fr kk newNode_refs by (auto simp: list_all_iff)
        then show ?thesis using unchanged_append by (rule view_unchanged)
      qed
      then show ?thesis by (simp add: map_eq_conv)
    qed
    have cc: "createColumnContainer i es = Node (attrs (createColumnContainer i es)) es" for i es
      by (simp add: createColumnContainer_def Let_def)
    have "buildTree gen rows = [createColumnContainer (gen []) (rowResults gen rows)]"
      using ne 3 len by (simp add: buildTree_def Let_def)
    also have "\<dots> = [Node a (rowResults gen rows)]"
      using cc [of "gen []" "rowResults gen rows"] v by (simp add: a_def)
    finally show ?thesis
      unfolding e using v2 v by simp
  qed
qed

subsection \<open>The layers that reach the tree building\<close>

text \<open>
  \<open>flattenLayers\<close> returns layers without children, and every cluster is made of layers
  of the input of the clustering: the clusters that the orchestrator hands to the tree
  building are lists of leaves.
\<close>

lemma flatten_leaves: "l \<in> set (flatten t) \<Longrightarrow> children l = []"
  by (induction t) (auto split: if_splits)

lemma flattenLayers_leaves: "l \<in> set (flattenLayers layers) \<Longrightarrow> children l = []"
  by (auto simp: flattenLayers_def flatten_leaves)

lemma clusterByProximity_subset:
  "c \<in> set (clusterByProximity layers t) \<Longrightarrow> set c \<subseteq> set layers"
  using clusterLoop_subset [of layers layers c]
  by (auto simp: clusterByProximity_def split: if_splits)

lemma pipeline_clusters_leaves:
  "list_all (list_all (\<lambda>l. children l = []))
     (clusterByProximity (filterValidLayers (flattenLayers layers)) t)"
proof -
  have "children l = []"
    if c: "c \<in> set (clusterByProximity (filterValidLayers (flattenLayers layers)) t)"
      and l: "l \<in> set c" for c l
  proof -
    have "l \<in> set (filterValidLayers (flattenLayers layers))"
      using clusterByProximity_subset [OF c] l by blast
    then have "l \<in> set (flattenLayers layers)" by (simp add: filterValidLayers_def)
    then show ?thesis by (rule flattenLayers_leaves)
  qed
  then show ?thesis by (simp add: list_all_iff)
qed

subsection \<open>The claim\<close>

lemma named_widget:
  "name a = ''card'' \<Longrightarrow> determineWidgetType (Node a cs) = ImageBox"
  "name a = ''Group 1'' \<Longrightarrow> type a = Group \<Longrightarrow> determineWidgetType (Node a cs) = Container"
  "name a = ''img1'' \<Longrightarrow> determineWidgetType (Node a cs) = ImageW"
  "name a = ''Headline'' \<Longrightarrow> determineWidgetType (Node a cs) = Heading"
  by (simp_all add: determineWidgetType_def testPrefix_def startsWith_def toLowerCase_def
        toLowerChar_def PATTERNS_heading_def PATTERNS_button_def PATTERNS_image_def
        PATTERNS_text_def PATTERNS_iconBox_def PATTERNS_imageBox_def PATTERNS_iconList_def
        PATTERNS_container_def Let_def)

lemma example_attrs:
  "name (attrs (groupNode i n b cs)) = n" "type (attrs (groupNode i n b cs)) = Group"
  "\<not> isComposite (attrs (groupNode i n b cs))"
  "name (attrs (box i t l r bo)) = i" "type (attrs (box i t l r bo)) = Image"
  "\<not> isComposite (attrs (box i t l r bo))"
  "name (attrs (leaf i n k b ti)) = n" "type (attrs (leaf i n k b ti)) = k"
  "textInfo (attrs (leaf i n k b ti)) = ti"
  "\<not> isComposite (attrs (leaf i n k b ti))"
  "children (box i t l r bo) = []"
  by (simp_all add: groupNode_def box_def leaf_def)

text \<open>
  Claim C9, as stated: the core never mutates input layer nodes, every field of an input
  node is after a conversion call what it was before, and all results are built as new
  output nodes. The last part fails for \<open>classifyLayer\<close>: a layer that is image-box,
  icon-box or icon-list by its own name is copied with \<open>{...layer}\<close> and its children are
  not visited, so the children of the result are the input nodes themselves. Here the
  input objects are at the addresses 0, 1 and 2, the group is named \<open>card\<close>, and the result
  is a new object at address 3 whose children are the objects at 1 and 2.
\<close>

theorem classifyLayer_shares_children_counterexample:
  "decoded [attrs (groupNode ''g1'' ''card'' (rect 0 0 200 250) []),
            attrs (box ''img1'' 0 0 200 200),
            attrs (tleaf ''t1'' ''Headline'' 30 (rect 210 0 200 250))]
     (ONode 0 [ONode 1 [], ONode 2 []]) \<and>
   classifyLayer_s
     [attrs (groupNode ''g1'' ''card'' (rect 0 0 200 250) []),
      attrs (box ''img1'' 0 0 200 200),
      attrs (tleaf ''t1'' ''Headline'' 30 (rect 210 0 200 250))]
     (ONode 0 [ONode 1 [], ONode 2 []]) =
     ([attrs (groupNode ''g1'' ''card'' (rect 0 0 200 250) []),
       attrs (box ''img1'' 0 0 200 200),
       attrs (tleaf ''t1'' ''Headline'' 30 (rect 210 0 200 250)),
       (attrs (groupNode ''g1'' ''card'' (rect 0 0 200 250) []))
         \<lparr>widgetType := Some ImageBox, badgeClass := Some ''image-box''\<rparr>],
      ONode 3 [ONode 1 [], ONode 2 []]) \<and>
   \<not> newNode
       [attrs (groupNode ''g1'' ''card'' (rect 0 0 200 250) []),
        attrs (box ''img1'' 0 0 200 200),
        attrs (tleaf ''t1'' ''Headline'' 30 (rect 210 0 200 250))]
       (fst (classifyLayer_s
               [attrs (groupNode ''g1'' ''card'' (rect 0 0 200 250) []),
                attrs (box ''img1'' 0 0 200 200),
                attrs (tleaf ''t1'' ''Headline'' 30 (rect 210 0 200 250))]
               (ONode 0 [ONode 1 [], ONode 2 []])))
       (snd (classifyLayer_s
               [attrs (groupNode ''g1'' ''card'' (rect 0 0 200 250) []),
                attrs (box ''img1'' 0 0 200 200),
                attrs (tleaf ''t1'' ''Headline'' 30 (rect 210 0 200 250))]
               (ONode 0 [ONode 1 [], ONode 2 []])))"
proof -
  let ?s = "[attrs (groupNode ''g1'' ''card'' (rect 0 0 200 250) []),
             attrs (box ''img1'' 0 0 200 200),
             attrs (tleaf ''t1'' ''Headline'' 30 (rect 210 0 200 250))]"
  let ?t = "ONode 0 [ONode 1 [], ONode 2 []]"
  have d: "decoded ?s ?t"
    by (simp add: decoded_def example_attrs tleaf_def)
  have c: "classifyLayer_s ?s ?t =
     (?s @ [(attrs (groupNode ''g1'' ''card'' (rect 0 0 200 250) []))
              \<lparr>widgetType := Some ImageBox, badgeClass := Some ''image-box''\<rparr>],
      ONode 3 [ONode 1 [], ONode 2 []])"
    by (simp add: Let_def alloc_def writeField_def named_widget example_attrs
          COMPOSITE_WIDGETS_def BADGE_CLASSES_def)
  have n: "\<not> newNode ?s (fst (classifyLayer_s ?s ?t)) (snd (classifyLayer_s ?s ?t))"
    unfolding c by (simp add: newNode_def)
  show ?thesis using d c n by simp
qed

text \<open>
  Claim C9, amended: the core never mutates input layer nodes. For every store \<open>s\<close> and
  input trees whose nodes are as the decoder builds them (objects of \<open>s\<close>, none marked
  composite), every object of \<open>s\<close> has after \<open>classifyLayers\<close> the fields it had before,
  and still has them after the generator has run on the result, with its calls of
  \<open>classify\<close> of the image-box content classifier that assign \<open>textInfo\<close>; every node
  that \<open>classifyLayers\<close> returns is a new object, and so are the children of every node
  of the result that is marked composite. The result of \<open>classifyLayer\<close> for a layer that
  is image-box, icon-box or icon-list by its own name has the children of the layer, not
  copies of them. For every store \<open>s\<close> and rows of leaf layers, every object of \<open>s\<close> has
  after \<open>buildTree\<close>, with the clustering it does, the fields it had before, also after
  the generator has run on the result, and all nodes of the result are new objects.
\<close>

theorem core_keeps_input_nodes:
  "(list_all (decoded s) ts \<longrightarrow>
      (case classifyLayers_s s ts of
         (s', ts') \<Rightarrow>
           unchanged s s' \<and> unchanged s (generateElementorJson_s s' ts') \<and>
           list_all (\<lambda>t'. length s \<le> ref t') ts' \<and>
           list_all (compositeKidsNew (length s) s') ts')) \<and>
   (determineWidgetType (view s t) \<in> set COMPOSITE_WIDGETS \<longrightarrow>
      kids (snd (classifyLayer_s s t)) = kids t) \<and>
   (list_all (list_all (list_all (\<lambda>l. children l = []))) rows \<longrightarrow>
      (case buildTree_s gen s rows of
         (s', roots) \<Rightarrow>
           unchanged s s' \<and> unchanged s (generateElementorJson_s s' roots) \<and>
           list_all (newNode s s') roots))"
proof (intro conjI impI)
  assume d: "list_all (decoded s) ts"
  obtain s' ts' where c: "classifyLayers_s s ts = (s', ts')"
    by (cases "classifyLayers_s s ts")
  show "case classifyLayers_s s ts of
         (s', ts') \<Rightarrow>
           unchanged s s' \<and> unchanged s (generateElementorJson_s s' ts') \<and>
           list_all (\<lambda>t'. length s \<le> ref t') ts' \<and>
           list_all (compositeKidsNew (length s) s') ts'"
    using classifyLayers_s_frame [OF d c] by (simp add: c)
next
  assume "determineWidgetType (view s t) \<in> set COMPOSITE_WIDGETS"
  then show "kids (snd (classifyLayer_s s t)) = kids t"
    by (cases t) (simp add: Let_def alloc_def)
next
  obtain s' roots where b: "buildTree_s gen s rows = (s', roots)"
    by (cases "buildTree_s gen s rows")
  show "case buildTree_s gen s rows of
         (s', roots) \<Rightarrow>
           unchanged s s' \<and> unchanged s (generateElementorJson_s s' roots) \<and>
           list_all (newNode s s') roots"
    using buildTree_s_frame [OF b] by (simp add: b)
qed

theorem core_keeps_input_nodes_witness:
  "list_all
     (decoded
        [attrs (groupNode ''g1'' ''Group 1'' (rect 0 0 200 250) []),
      attrs (box ''img1'' 0 0 200 200),
      attrs (leaf ''t1'' ''Headline'' Text (rect 210 0 200 250) None),
      attrs (groupNode ''g2'' ''card'' (rect 0 0 200 250) [])])
     [ONode 0 [ONode 1 [], ONode 2 []]] \<and>
   determineWidgetType
     (view
        [attrs (groupNode ''g1'' ''Group 1'' (rect 0 0 200 250) []),
      attrs (box ''img1'' 0 0 200 200),
      attrs (leaf ''t1'' ''Headline'' Text (rect 210 0 200 250) None),
      attrs (groupNode ''g2'' ''card'' (rect 0 0 200 250) [])]
        (ONode 3 [ONode 1 [], ONode 2 []])) \<in> set COMPOSITE_WIDGETS \<and>
   list_all (list_all (list_all (\<lambda>l. children l = []))) [[[box ''img1'' 0 0 200 200]]] \<and>
   classifyLayers_s
     [attrs (groupNode ''g1'' ''Group 1'' (rect 0 0 200 250) []),
      attrs (box ''img1'' 0 0 200 200),
      attrs (leaf ''t1'' ''Headline'' Text (rect 210 0 200 250) None),
      attrs (groupNode ''g2'' ''card'' (rect 0 0 200 250) [])]
     [ONode 0 [ONode 1 [], ONode 2 []]] =
     ([attrs (groupNode ''g1'' ''Group 1'' (rect 0 0 200 250) []),
      attrs (box ''img1'' 0 0 200 200),
      attrs (leaf ''t1'' ''Headline'' Text (rect 210 0 200 250) None),
      attrs (groupNode ''g2'' ''card'' (rect 0 0 200 250) []),
      (attrs (groupNode ''g1'' ''Group 1'' (rect 0 0 200 250) []))
        \<lparr>widgetType := Some ImageBox, badgeClass := Some ''image-box'', isComposite := True\<rparr>,
      (attrs (box ''img1'' 0 0 200 200))
        \<lparr>widgetType := Some ImageW, badgeClass := Some ''image''\<rparr>,
      (attrs (leaf ''t1'' ''Headline'' Text (rect 210 0 200 250) None))
        \<lparr>widgetType := Some Heading, badgeClass := Some ''heading''\<rparr>],
      [ONode 4 [ONode 5 [], ONode 6 []]]) \<and>
   generateElementorJson_s
     [attrs (groupNode ''g1'' ''Group 1'' (rect 0 0 200 250) []),
      attrs (box ''img1'' 0 0 200 200),
      attrs (leaf ''t1'' ''Headline'' Text (rect 210 0 200 250) None),
      attrs (groupNode ''g2'' ''card'' (rect 0 0 200 250) []),
      (attrs (groupNode ''g1'' ''Group 1'' (rect 0 0 200 250) []))
        \<lparr>widgetType := Some ImageBox, badgeClass := Some ''image-box'', isComposite := True\<rparr>,
      (attrs (box ''img1'' 0 0 200 200))
        \<lparr>widgetType := Some ImageW, badgeClass := Some ''image''\<rparr>,
      (attrs (leaf ''t1'' ''Headline'' Text (rect 210 0 200 250) None))
        \<lparr>widgetType := Some Heading, badgeClass := Some ''heading''\<rparr>]
     [ONode 4 [ONode 5 [], ONode 6 []]] =
     [attrs (groupNode ''g1'' ''Group 1'' (rect 0 0 200 250) []),
      attrs (box ''img1'' 0 0 200 200),
      attrs (leaf ''t1'' ''Headline'' Text (rect 210 0 200 250) None),
      attrs (groupNode ''g2'' ''card'' (rect 0 0 200 250) []),
      (attrs (groupNode ''g1'' ''Group 1'' (rect 0 0 200 250) []))
        \<lparr>widgetType := Some ImageBox, badgeClass := Some ''image-box'', isComposite := True\<rparr>,
      (attrs (box ''img1'' 0 0 200 200))
        \<lparr>widgetType := Some ImageW, badgeClass := Some ''image''\<rparr>,
      (attrs (leaf ''t1'' ''Headline'' Text (rect 210 0 200 250) None))
        \<lparr>widgetType := Some Heading, badgeClass := Some ''heading'',
          textInfo := Some (extractStyle None)\<rparr>] \<and>
   unchanged
     [attrs (groupNode ''g1'' ''Group 1'' (rect 0 0 200 250) []),
      attrs (box ''img1'' 0 0 200 200),
      attrs (leaf ''t1'' ''Headline'' Text (rect 210 0 200 250) None),
      attrs (groupNode ''g2'' ''card'' (rect 0 0 200 250) [])]
     (generateElementorJson_s
        (fst (classifyLayers_s
                [attrs (groupNode ''g1'' ''Group 1'' (rect 0 0 200 250) []),
      attrs (box ''img1'' 0 0 200 200),
      attrs (leaf ''t1'' ''Headline'' Text (rect 210 0 200 250) None),
      attrs (groupNode ''g2'' ''card'' (rect 0 0 200 250) [])]
                [ONode 0 [ONode 1 [], ONode 2 []]]))
        (snd (classifyLayers_s
                [attrs (groupNode ''g1'' ''Group 1'' (rect 0 0 200 250) []),
      attrs (box ''img1'' 0 0 200 200),
      attrs (leaf ''t1'' ''Headline'' Text (rect 210 0 200 250) None),
      attrs (groupNode ''g2'' ''card'' (rect 0 0 200 250) [])]
                [ONode 0 [ONode 1 [], ONode 2 []]]))) \<and>
   kids (snd (classifyLayer_s
                [attrs (groupNode ''g1'' ''Group 1'' (rect 0 0 200 250) []),
      attrs (box ''img1'' 0 0 200 200),
      attrs (leaf ''t1'' ''Headline'' Text (rect 210 0 200 250) None),
      attrs (groupNode ''g2'' ''card'' (rect 0 0 200 250) [])]
                (ONode 3 [ONode 1 [], ONode 2 []]))) = [ONode 1 [], ONode 2 []] \<and>
   unchanged
     [attrs (groupNode ''g1'' ''Group 1'' (rect 0 0 200 250) []),
      attrs (box ''img1'' 0 0 200 200),
      attrs (leaf ''t1'' ''Headline'' Text (rect 210 0 200 250) None),
      attrs (groupNode ''g2'' ''card'' (rect 0 0 200 250) [])]
     (fst (buildTree_s (\<lambda>path. ''new'')
             [attrs (groupNode ''g1'' ''Group 1'' (rect 0 0 200 250) []),
      attrs (box ''img1'' 0 0 200 200),
      attrs (leaf ''t1'' ''Headline'' Text (rect 210 0 200 250) None),
      attrs (groupNode ''g2'' ''card'' (rect 0 0 200 250) [])]
             [[[box ''img1'' 0 0 200 200]]])) \<and>
   list_all
     (newNode
        [attrs (groupNode ''g1'' ''Group 1'' (rect 0 0 200 250) []),
      attrs (box ''img1'' 0 0 200 200),
      attrs (leaf ''t1'' ''Headline'' Text (rect 210 0 200 250) None),
      attrs (groupNode ''g2'' ''card'' (rect 0 0 200 250) [])]
        (fst (buildTree_s (\<lambda>path. ''new'')
                [attrs (groupNode ''g1'' ''Group 1'' (rect 0 0 200 250) []),
      attrs (box ''img1'' 0 0 200 200),
      attrs (leaf ''t1'' ''Headline'' Text (rect 210 0 200 250) None),
      attrs (groupNode ''g2'' ''card'' (rect 0 0 200 250) [])]
                [[[box ''img1'' 0 0 200 200]]])))
     (snd (buildTree_s (\<lambda>path. ''new'')
             [attrs (groupNode ''g1'' ''Group 1'' (rect 0 0 200 250) []),
      attrs (box ''img1'' 0 0 200 200),
      attrs (leaf ''t1'' ''Headline'' Text (rect 210 0 200 250) None),
      attrs (groupNode ''g2'' ''card'' (rect 0 0 200 250) [])]
             [[[box ''img1'' 0 0 200 200]]]))"
proof -
  let ?g = "attrs (groupNode ''g1'' ''Group 1'' (rect 0 0 200 250) [])"
  let ?i = "attrs (box ''img1'' 0 0 200 200)"
  let ?h = "attrs (leaf ''t1'' ''Headline'' Text (rect 210 0 200 250) None)"
  let ?c = "attrs (groupNode ''g2'' ''card'' (rect 0 0 200 250) [])"
  let ?s = "[?g, ?i, ?h, ?c]"
  let ?ts = "[ONode 0 [ONode 1 [], ONode 2 []]]"
  let ?t = "ONode 3 [ONode 1 [], ONode 2 []]"
  let ?gc = "?g\<lparr>widgetType := Some Container, badgeClass := Some ''container''\<rparr>"
  let ?g' = "?g\<lparr>widgetType := Some ImageBox, badgeClass := Some ''image-box'', isComposite := True\<rparr>"
  let ?i' = "?i\<lparr>widgetType := Some ImageW, badgeClass := Some ''image''\<rparr>"
  let ?h' = "?h\<lparr>widgetType := Some Heading, badgeClass := Some ''heading''\<rparr>"
  let ?rows = "[[[box ''img1'' 0 0 200 200]]]"
  have d: "list_all (decoded ?s) ?ts"
    by (simp add: decoded_def example_attrs)
  have w: "determineWidgetType (view ?s ?t) \<in> set COMPOSITE_WIDGETS"
    by (simp add: named_widget example_attrs COMPOSITE_WIDGETS_def)
  have l: "list_all (list_all (list_all (\<lambda>l. children l = []))) ?rows"
    by (simp add: example_attrs)
  have k1: "classifyLayer_s (?s @ [?gc]) (ONode 1 []) = (?s @ [?gc, ?i'], ONode 5 [])"
    by (simp add: Let_def alloc_def writeField_def named_widget example_attrs BADGE_CLASSES_def)
  have k2: "classifyLayer_s (?s @ [?gc, ?i']) (ONode 2 []) = (?s @ [?gc, ?i', ?h'], ONode 6 [])"
    by (simp add: Let_def alloc_def writeField_def named_widget example_attrs BADGE_CLASSES_def)
  have c: "classifyLayers_s ?s ?ts =
           ([?g, ?i, ?h, ?c, ?g', ?i', ?h'], [ONode 4 [ONode 5 [], ONode 6 []]])"
    using k1 k2
    by (simp add: classifyLayers_s_def Let_def alloc_def writeField_def named_widget example_attrs
          COMPOSITE_WIDGETS_def BADGE_CLASSES_def detectCompositeWidget_def)
  have g: "generateElementorJson_s [?g, ?i, ?h, ?c, ?g', ?i', ?h'] [ONode 4 [ONode 5 [], ONode 6 []]] =
           [?g, ?i, ?h, ?c, ?g', ?i', ?h'\<lparr>textInfo := Some (extractStyle None)\<rparr>]"
    by (simp add: generateElementorJson_s_def wrapInContainers_s_def classify_s_def
          fillTextInfo_s_def writeField_def example_attrs groupNode_def leaf_def box_def)
  from core_keeps_input_nodes [of ?s ?ts ?t ?rows "\<lambda>path. ''new''"] d w l
  have "unchanged ?s (generateElementorJson_s (fst (classifyLayers_s ?s ?ts)) (snd (classifyLayers_s ?s ?ts)))
        \<and> kids (snd (classifyLayer_s ?s ?t)) = [ONode 1 [], ONode 2 []]
        \<and> unchanged ?s (fst (buildTree_s (\<lambda>path. ''new'') ?s ?rows))
        \<and> list_all (newNode ?s (fst (buildTree_s (\<lambda>path. ''new'') ?s ?rows)))
             (snd (buildTree_s (\<lambda>path. ''new'') ?s ?rows))"
    by (simp add: case_prod_beta)
  then show ?thesis using d w l c g by (intro conjI) simp_all
qed

section \<open>Properties of the tree building\<close>

lemma foldl_min_lower:
  "foldl min x xs \<le> (x::real) \<and> (\<forall>y \<in> set xs. foldl min x xs \<le> y)"
proof (induction xs arbitrary: x)
  case Nil
  show ?case by simp
next
  case (Cons z zs)
  from Cons.IH [of "min x z"] show ?case by auto
qed

lemma foldl_min_le: "y \<in> set (x # xs) \<Longrightarrow> foldl min x xs \<le> (y::real)"
  using foldl_min_lower [of x xs] by auto

lemma foldl_min_mem: "foldl min x xs \<in> set ((x::real) # xs)"
proof (induction xs arbitrary: x)
  case Nil
  show ?case by simp
next
  case (Cons z zs)
  have "foldl min (min x z) zs \<in> set (min x z # zs)" by (rule Cons.IH)
  moreover have "min x z = x \<or> min x z = z" by (simp add: min_def)
  ultimately show ?case by auto
qed

lemma foldl_max_upper:
  "(x::real) \<le> foldl max x xs \<and> (\<forall>y \<in> set xs. y \<le> foldl max x xs)"
proof (induction xs arbitrary: x)
  case Nil
  show ?case by simp
next
  case (Cons z zs)
  from Cons.IH [of "max x z"] show ?case by auto
qed

lemma foldl_max_ge: "y \<in> set (x # xs) \<Longrightarrow> (y::real) \<le> foldl max x xs"
  using foldl_max_upper [of x xs] by auto

lemma foldl_max_mem: "foldl max x xs \<in> set ((x::real) # xs)"
proof (induction xs arbitrary: x)
  case Nil
  show ?case by simp
next
  case (Cons z zs)
  have "foldl max (max x z) zs \<in> set (max x z # zs)" by (rule Cons.IH)
  moreover have "max x z = x \<or> max x z = z" by (simp add: max_def)
  ultimately show ?case by auto
qed

lemma least_of_list:
  assumes "es \<noteq> []"
  shows "(\<forall>e \<in> set es. (case map f es of [] \<Rightarrow> 0 | x # xs \<Rightarrow> foldl min x xs) \<le> (f e :: real)) \<and>
         (case map f es of [] \<Rightarrow> 0 | x # xs \<Rightarrow> foldl min x xs) \<in> f ` set es"
proof -
  obtain e0 es' where es: "es = e0 # es'" using assms by (cases es) auto
  have c: "(case map f es of [] \<Rightarrow> 0 | x # xs \<Rightarrow> foldl min x xs) =
           foldl min (f e0) (map f es')" by (simp add: es)
  have s: "f ` set es = set (f e0 # map f es')" by (simp add: es)
  have "\<forall>e \<in> set es. foldl min (f e0) (map f es') \<le> f e"
    using foldl_min_le [of _ "f e0" "map f es'"] s by blast
  moreover have "foldl min (f e0) (map f es') \<in> f ` set es"
    unfolding s by (rule foldl_min_mem)
  ultimately show ?thesis unfolding c by simp
qed

lemma greatest_of_list:
  assumes "es \<noteq> []"
  shows "(\<forall>e \<in> set es. (f e :: real) \<le> (case map f es of [] \<Rightarrow> 0 | x # xs \<Rightarrow> foldl max x xs)) \<and>
         (case map f es of [] \<Rightarrow> 0 | x # xs \<Rightarrow> foldl max x xs) \<in> f ` set es"
proof -
  obtain e0 es' where es: "es = e0 # es'" using assms by (cases es) auto
  have c: "(case map f es of [] \<Rightarrow> 0 | x # xs \<Rightarrow> foldl max x xs) =
           foldl max (f e0) (map f es')" by (simp add: es)
  have s: "f ` set es = set (f e0 # map f es')" by (simp add: es)
  have "\<forall>e \<in> set es. f e \<le> foldl max (f e0) (map f es')"
    using foldl_max_ge [of _ "f e0" "map f es'"] s by blast
  moreover have "foldl max (f e0) (map f es') \<in> f ` set es"
    unfolding s by (rule foldl_max_mem)
  ultimately show ?thesis unfolding c by simp
qed

lemma createColumnContainer_bounds:
  assumes "es \<noteq> []"
  shows "(\<forall>e \<in> set es.
            top_b (lbounds (createColumnContainer i es)) \<le> top_b (lbounds e) \<and>
            left (lbounds (createColumnContainer i es)) \<le> left (lbounds e) \<and>
            right (lbounds e) \<le> right (lbounds (createColumnContainer i es)) \<and>
            bottom (lbounds e) \<le> bottom (lbounds (createColumnContainer i es)))"
    and "top_b (lbounds (createColumnContainer i es)) \<in> (\<lambda>e. top_b (lbounds e)) ` set es"
    and "left (lbounds (createColumnContainer i es)) \<in> (\<lambda>e. left (lbounds e)) ` set es"
    and "right (lbounds (createColumnContainer i es)) \<in> (\<lambda>e. right (lbounds e)) ` set es"
    and "bottom (lbounds (createColumnContainer i es)) \<in> (\<lambda>e. bottom (lbounds e)) ` set es"
  using least_of_list [OF assms, of "\<lambda>e. top_b (lbounds e)"]
    least_of_list [OF assms, of "\<lambda>e. left (lbounds e)"]
    greatest_of_list [OF assms, of "\<lambda>e. right (lbounds e)"]
    greatest_of_list [OF assms, of "\<lambda>e. bottom (lbounds e)"]
  by (simp_all add: createColumnContainer_def Let_def comp_def)

lemma createColumnContainer_fields:
  "children (createColumnContainer i es) = es"
  "widgetType (attrs (createColumnContainer i es)) = Some Container"
  "map_option l_direction (layout (attrs (createColumnContainer i es))) = Some Column"
  "width (lbounds (createColumnContainer i es)) =
     right (lbounds (createColumnContainer i es)) - left (lbounds (createColumnContainer i es))"
  "height (lbounds (createColumnContainer i es)) =
     bottom (lbounds (createColumnContainer i es)) - top_b (lbounds (createColumnContainer i es))"
  by (simp_all add: createColumnContainer_def Let_def)

lemma length_rowResults_aux:
  "length (concat (map (\<lambda>(i, row).
                    if row = [] then []
                    else if length row = 1 then [processCluster gen [i] (hd row)]
                    else [createRowContainer gen [i] row])
               (enumerate n rows))) = length (filter (\<lambda>row. row \<noteq> []) rows)"
  by (induction rows arbitrary: n) auto

lemma length_rowResults:
  "length (rowResults gen rows) = length (filter (\<lambda>row. row \<noteq> []) rows)"
  unfolding rowResults_def by (rule length_rowResults_aux)

text \<open>
  Claim C10, as stated: for every input the output is a tree with a single root. It fails
  when the rows yield no result, for no rows or for empty rows only: \<open>buildTree\<close> then
  returns the empty list.
\<close>

theorem buildTree_empty_counterexample:
  "buildTree (\<lambda>p. ''n'') [] = [] \<and> length (buildTree (\<lambda>p. ''n'') []) \<noteq> 1 \<and>
   buildTree (\<lambda>p. ''n'') [[]] = []"
  by (simp add: buildTree_def rowResults_def)

text \<open>
  Claim C10, amended: \<open>buildTree\<close> returns at most one root. The loop yields one result
  for each row that is not empty. With no result the output is empty; exactly one result
  is returned as it is; two or more are made the children of one new column container,
  whose bounds are the union of theirs: it contains the bounds of every child and each of
  its four edges is the edge of some child.
\<close>

theorem buildTree_single_root:
  "length (buildTree gen rows) \<le> 1 \<and>
   length (rowResults gen rows) = length (filter (\<lambda>row. row \<noteq> []) rows) \<and>
   (rowResults gen rows = [] \<longrightarrow> buildTree gen rows = []) \<and>
   (length (rowResults gen rows) = 1 \<longrightarrow> buildTree gen rows = rowResults gen rows) \<and>
   (1 < length (rowResults gen rows) \<longrightarrow>
      (\<exists>root. buildTree gen rows = [root] \<and> children root = rowResults gen rows \<and>
         widgetType (attrs root) = Some Container \<and>
         map_option l_direction (layout (attrs root)) = Some Column \<and>
         (\<forall>e \<in> set (rowResults gen rows).
            top_b (lbounds root) \<le> top_b (lbounds e) \<and>
            left (lbounds root) \<le> left (lbounds e) \<and>
            right (lbounds e) \<le> right (lbounds root) \<and>
            bottom (lbounds e) \<le> bottom (lbounds root)) \<and>
         top_b (lbounds root) \<in> (\<lambda>e. top_b (lbounds e)) ` set (rowResults gen rows) \<and>
         left (lbounds root) \<in> (\<lambda>e. left (lbounds e)) ` set (rowResults gen rows) \<and>
         right (lbounds root) \<in> (\<lambda>e. right (lbounds e)) ` set (rowResults gen rows) \<and>
         bottom (lbounds root) \<in> (\<lambda>e. bottom (lbounds e)) ` set (rowResults gen rows) \<and>
         width (lbounds root) = right (lbounds root) - left (lbounds root) \<and>
         height (lbounds root) = bottom (lbounds root) - top_b (lbounds root)))"
proof (intro conjI impI)
  show "length (buildTree gen rows) \<le> 1" by (simp add: buildTree_def Let_def)
  show "length (rowResults gen rows) = length (filter (\<lambda>row. row \<noteq> []) rows)"
    by (rule length_rowResults)
next
  assume "rowResults gen rows = []"
  then show "buildTree gen rows = []" by (simp add: buildTree_def)
next
  assume "length (rowResults gen rows) = 1"
  then show "buildTree gen rows = rowResults gen rows"
    by (auto simp: buildTree_def Let_def)
next
  assume len: "1 < length (rowResults gen rows)"
  let ?res = "rowResults gen rows"
  let ?root = "createColumnContainer (gen []) ?res"
  have ne: "?res \<noteq> []" using len by auto
  have bt: "buildTree gen rows = [?root]" using len by (auto simp: buildTree_def Let_def)
  note b = createColumnContainer_bounds [OF ne, of "gen []"]
  note f = createColumnContainer_fields [of "gen []" ?res]
  show "\<exists>root. buildTree gen rows = [root] \<and> children root = rowResults gen rows \<and>
         widgetType (attrs root) = Some Container \<and>
         map_option l_direction (layout (attrs root)) = Some Column \<and>
         (\<forall>e \<in> set (rowResults gen rows).
            top_b (lbounds root) \<le> top_b (lbounds e) \<and>
            left (lbounds root) \<le> left (lbounds e) \<and>
            right (lbounds e) \<le> right (lbounds root) \<and>
            bottom (lbounds e) \<le> bottom (lbounds root)) \<and>
         top_b (lbounds root) \<in> (\<lambda>e. top_b (lbounds e)) ` set (rowResults gen rows) \<and>
         left (lbounds root) \<in> (\<lambda>e. left (lbounds e)) ` set (rowResults gen rows) \<and>
         right (lbounds root) \<in> (\<lambda>e. right (lbounds e)) ` set (rowResults gen rows) \<and>
         bottom (lbounds root) \<in> (\<lambda>e. bottom (lbounds e)) ` set (rowResults gen rows) \<and>
         width (lbounds root) = right (lbounds root) - left (lbounds root) \<and>
         height (lbounds root) = bottom (lbounds root) - top_b (lbounds root)"
    by (rule exI [of _ ?root]) (intro conjI bt f b)
qed

theorem buildTree_single_root_witness:
  "length (buildTree (\<lambda>p. ''n'') [[[box ''a'' 0 0 10 10]], [[box ''b'' 100 0 10 110]]]) = 1 \<and>
   children (hd (buildTree (\<lambda>p. ''n'') [[[box ''a'' 0 0 10 10]], [[box ''b'' 100 0 10 110]]])) =
     rowResults (\<lambda>p. ''n'') [[[box ''a'' 0 0 10 10]], [[box ''b'' 100 0 10 110]]] \<and>
   buildTree (\<lambda>p. ''n'') [[[box ''a'' 0 0 10 10]]] =
     rowResults (\<lambda>p. ''n'') [[[box ''a'' 0 0 10 10]]] \<and>
   length (buildTree (\<lambda>p. ''n'') [[[box ''a'' 0 0 10 10]]]) = 1"
proof -
  have l2: "length (rowResults (\<lambda>p. ''n'')
              [[[box ''a'' 0 0 10 10]], [[box ''b'' 100 0 10 110]]]) = 2"
    by (simp add: length_rowResults)
  have l1: "length (rowResults (\<lambda>p. ''n'') [[[box ''a'' 0 0 10 10]]]) = 1"
    by (simp add: length_rowResults)
  show ?thesis
    using buildTree_single_root
            [of "\<lambda>p. ''n''" "[[[box ''a'' 0 0 10 10]], [[box ''b'' 100 0 10 110]]]"]
      buildTree_single_root [of "\<lambda>p. ''n''" "[[[box ''a'' 0 0 10 10]]]"] l1 l2
    by auto
qed

end
